theory Spec2Isabelle
  imports Main "HOL-Library.AList"
begin

section \<open>Data model of GenPyART.py\<close>

text \<open>
  The application is one Python class, \<open>GenerativeArtApp\<close>, whose methods mutate the
  fields of \<open>self\<close>, a Tk canvas and the module-level generator of \<open>random\<close>.
  The embedding keeps all of that in one record \<open>app\<close> that every method takes and
  returns. A method that can raise returns \<open>Raised e s\<close>, where \<open>s\<close> is the
  state at the moment of the raise: Python keeps the mutations made before an exception.
\<close>

datatype py_error = ValueError | IndexError | UnboundLocalError

text \<open>The keys of \<open>SHAPE_TYPES\<close>, in the order the dictionary literal lists them.\<close>

datatype shape_type = Circle | Line | Arc | Rectangle | Triangle

text \<open>What \<open>canvas.type(item)\<close> answers: oval, line, arc, rectangle, polygon, text.\<close>

datatype item_kind = KOval | KLine | KArc | KRectangle | KPolygon | KText

text \<open>Values of the keyword options of the \<open>create_*\<close> calls.\<close>

datatype tkval = Str string | Num int | Nums "int list" | Font string int string

text \<open>
  A canvas primitive: its kind, the coordinate list handed to the \<open>create_*\<close> call and
  the keyword options of that call, in the order written. Coordinates are integers: every
  coordinate the program passes is a Python int, and the floats Tk answers for them are
  integral.
\<close>

record item =
  kind :: item_kind
  coords :: "int list"
  opts :: "(string \<times> tkval) list"

text \<open>
  The canvas surface: the live primitives with their handles in display order (last on
  top), and the number of primitives ever created. Tk numbers primitives 1, 2, 3, ...
  and never reuses a handle.
\<close>

record tk_canvas =
  cv_items :: "(nat \<times> item) list"
  created :: nat

text \<open>One entry of \<open>draw_history\<close>: the dictionary \<open>shape_record\<close> of \<open>draw_shape\<close>.
  The key \<open>mirror_items\<close> exists only when the shape was mirrored.\<close>

record shape_record =
  rec_type :: shape_type
  items :: "nat list"
  mirror_items :: "nat list option"

text \<open>The \<open>SETTINGS\<close> dictionary; its keys are fixed by \<open>__init__\<close>.\<close>

record settings =
  animation_speed :: int
  auto_clear_threshold :: int
  drawing_mode :: string
  burst_count :: int
  min_shape_size :: int
  max_shape_size :: int
  outline_only :: bool
  mirror_drawing :: bool
  grid_overlay :: bool
  bg_color :: string
  custom_palette :: string
  watermark_enabled :: bool
  watermark_text :: string
  meme_text :: string
  meme_font :: string
  meme_font_size :: int
  random_seed :: "int option"

text \<open>
  The generator of the \<open>random\<close> module: an arbitrary sequence of raw draws, read in
  order. One call of \<open>randint\<close> or \<open>choice\<close> consumes one raw draw.
\<close>

record rng_state =
  raw :: "nat \<Rightarrow> nat"
  pos :: nat

text \<open>Callbacks handed to \<open>root.after\<close>; the replay closure carries its snapshot
  \<open>history_copy\<close> and its index.\<close>

datatype callback = Animate | ReplayNext "shape_record list" nat

text \<open>The text of an entry widget is a Python \<open>str\<close>: a list of Unicode code points.\<close>

type_synonym entry_text = "nat list"

text \<open>
  The fields of \<open>self\<close> that the modelled methods read or write, the Tk variables and
  widgets they read (\<open>special_mode\<close>, \<open>chaos_mode\<close>, \<open>drawing_mode_var\<close> for
  \<open>self.drawing_mode\<close>, \<open>speed_scale\<close>, \<open>seed_entry\<close>), the canvas with its background
  option, the text of the status label, the generator and the pending \<open>after\<close> timers.
\<close>

record app =
  CANVAS_WIDTH :: int
  CANVAS_HEIGHT :: int
  paused :: bool
  frame_count :: int
  draw_history :: "shape_record list"
  meme_text_id :: "nat option"
  watermark_id :: "nat option"
  SETTINGS :: settings
  SHAPE_TYPES :: "(shape_type \<times> bool) list"
  special_mode :: string
  chaos_mode :: bool
  drawing_mode_var :: string
  speed_scale :: int
  seed_entry :: entry_text
  canvas :: tk_canvas
  canvas_bg :: string
  status :: string
  rng :: rng_state
  timers :: "(int \<times> callback) list"

section \<open>Statements that may raise\<close>

datatype 'a res = Ok 'a app | Raised py_error app

type_synonym 'a prog = "app \<Rightarrow> 'a res"

definition ret :: "'a \<Rightarrow> 'a prog" where
  "ret a s = Ok a s"

definition raise :: "py_error \<Rightarrow> 'a prog" where
  "raise e s = Raised e s"

text \<open>Sequencing: an exception of the first statement skips the rest.\<close>

definition then_do :: "'a prog \<Rightarrow> ('a \<Rightarrow> 'b prog) \<Rightarrow> 'b prog" where
  "then_do m f s = (case m s of Raised e s' \<Rightarrow> Raised e s' | Ok a s' \<Rightarrow> f a s')"

definition read :: "(app \<Rightarrow> 'a) \<Rightarrow> 'a prog" where
  "read f s = Ok (f s) s"

definition modify :: "(app \<Rightarrow> app) \<Rightarrow> unit prog" where
  "modify f s = Ok () (f s)"

definition when_do :: "bool \<Rightarrow> unit prog \<Rightarrow> unit prog" where
  "when_do b m = (if b then m else ret ())"

text \<open>\<open>for _ in range(n): body\<close>\<close>

fun repeat :: "nat \<Rightarrow> unit prog \<Rightarrow> unit prog" where
  "repeat 0 m = ret ()"
| "repeat (Suc n) m = then_do m (\<lambda>_. repeat n m)"

text \<open>\<open>[body for _ in range(n)]\<close>\<close>

fun collect :: "nat \<Rightarrow> 'a prog \<Rightarrow> 'a list prog" where
  "collect 0 m = ret []"
| "collect (Suc n) m = then_do m (\<lambda>a. then_do (collect n m) (\<lambda>as. ret (a # as)))"

definition state_of :: "'a res \<Rightarrow> app" where
  "state_of r = (case r of Ok _ s \<Rightarrow> s | Raised _ s \<Rightarrow> s)"

definition is_ok :: "'a res \<Rightarrow> bool" where
  "is_ok r = (case r of Ok _ _ \<Rightarrow> True | Raised _ _ \<Rightarrow> False)"

section \<open>The random module\<close>

definition randbelow :: "nat \<Rightarrow> nat prog" where
  "randbelow n s =
     Ok (raw (rng s) (pos (rng s)) mod n) (s\<lparr>rng := (rng s)\<lparr>pos := Suc (pos (rng s))\<rparr>\<rparr>)"

text \<open>\<open>random.randint(a, b)\<close>: an integer of \<open>[a, b]\<close>; ValueError on an empty range.\<close>

definition randint :: "int \<Rightarrow> int \<Rightarrow> int prog" where
  "randint a b =
     (if b < a then raise ValueError
      else then_do (randbelow (nat (b - a + 1))) (\<lambda>k. ret (a + int k)))"

text \<open>\<open>random.choice(seq)\<close>: an element of \<open>seq\<close>; IndexError on an empty one.\<close>

definition choice :: "'a list \<Rightarrow> 'a prog" where
  "choice xs =
     (case xs of [] \<Rightarrow> raise IndexError
      | _ # _ \<Rightarrow> then_do (randbelow (length xs)) (\<lambda>k. ret (xs ! k)))"

subsection \<open>\<open>"#%06x" % n\<close>\<close>

definition hex_digit :: "nat \<Rightarrow> char" where
  "hex_digit d = ''0123456789abcdef'' ! (d mod 16)"

function hex_of :: "nat \<Rightarrow> string" where
  "hex_of n = (if n < 16 then [hex_digit n] else hex_of (n div 16) @ [hex_digit n])"
  by pat_completeness auto
termination
  by (relation "measure id") auto

definition fmt_06x :: "nat \<Rightarrow> string" where
  "fmt_06x n = replicate (6 - length (hex_of n)) (CHR ''0'') @ hex_of n"

definition hex_color :: "int \<Rightarrow> string" where
  "hex_color n = CHR ''#'' # fmt_06x (nat n)"

text \<open>\<open>random_color()\<close>\<close>

definition random_color :: "string prog" where
  "random_color = then_do (randint 0 0xFFFFFF) (\<lambda>n. ret (hex_color n))"

text \<open>\<open>",".join(xs)\<close>\<close>

fun join_comma :: "string list \<Rightarrow> string" where
  "join_comma [] = []"
| "join_comma [x] = x"
| "join_comma (x # y # ys) = x @ CHR '','' # join_comma (y # ys)"

section \<open>The canvas surface\<close>

text \<open>
  The Tk canvas is kept as the list of its live primitives. A call of the canvas always
  succeeds here and stores the coordinate list as it was given: the errors and the
  bookkeeping of Tk itself are outside this development.
\<close>

definition cv_create :: "item_kind \<Rightarrow> int list \<Rightarrow> (string \<times> tkval) list \<Rightarrow> tk_canvas \<Rightarrow> nat \<times> tk_canvas" where
  "cv_create k cs os cv =
     (let i = Suc (created cv)
      in (i, cv\<lparr>cv_items := cv_items cv @ [(i, \<lparr>kind = k, coords = cs, opts = os\<rparr>)],
                created := i\<rparr>))"

text \<open>\<open>canvas.delete(id)\<close>: a handle that is not live deletes nothing.\<close>

definition cv_delete :: "nat \<Rightarrow> tk_canvas \<Rightarrow> tk_canvas" where
  "cv_delete i cv = cv\<lparr>cv_items := filter (\<lambda>p. fst p \<noteq> i) (cv_items cv)\<rparr>"

definition has_tag :: "string \<Rightarrow> item \<Rightarrow> bool" where
  "has_tag t it = (map_of (opts it) ''tags'' = Some (Str t))"

text \<open>\<open>canvas.delete("all")\<close> and \<open>canvas.delete("grid")\<close>\<close>

definition cv_delete_tag :: "string \<Rightarrow> tk_canvas \<Rightarrow> tk_canvas" where
  "cv_delete_tag t cv =
     (if t = ''all'' then cv\<lparr>cv_items := []\<rparr>
      else cv\<lparr>cv_items := filter (\<lambda>p. \<not> has_tag t (snd p)) (cv_items cv)\<rparr>)"

text \<open>\<open>canvas.coords(id)\<close> and \<open>canvas.type(id)\<close>; Tk answers an empty list and
  \<open>None\<close> for a handle that is not live.\<close>

definition cv_coords :: "nat \<Rightarrow> tk_canvas \<Rightarrow> int list" where
  "cv_coords i cv = (case map_of (cv_items cv) i of None \<Rightarrow> [] | Some it \<Rightarrow> coords it)"

definition cv_type :: "nat \<Rightarrow> tk_canvas \<Rightarrow> item_kind option" where
  "cv_type i cv = map_option kind (map_of (cv_items cv) i)"

text \<open>\<open>canvas.itemconfigure(id, text=t)\<close>\<close>

definition cv_itemconfigure_text :: "nat \<Rightarrow> string \<Rightarrow> tk_canvas \<Rightarrow> tk_canvas" where
  "cv_itemconfigure_text i t cv =
     cv\<lparr>cv_items :=
          map (\<lambda>p. if fst p = i
                    then (fst p, (snd p)\<lparr>opts := AList.update ''text'' (Str t) (opts (snd p))\<rparr>)
                    else p)
              (cv_items cv)\<rparr>"

text \<open>\<open>canvas.tag_raise(id)\<close>: the primitive moves to the top of the display list.\<close>

definition cv_tag_raise :: "nat \<Rightarrow> tk_canvas \<Rightarrow> tk_canvas" where
  "cv_tag_raise i cv =
     cv\<lparr>cv_items := filter (\<lambda>p. fst p \<noteq> i) (cv_items cv) @ filter (\<lambda>p. fst p = i) (cv_items cv)\<rparr>"

text \<open>The \<open>self.canvas.create_*\<close> calls, as statements on the application state.\<close>

definition create :: "item_kind \<Rightarrow> int list \<Rightarrow> (string \<times> tkval) list \<Rightarrow> nat prog" where
  "create k cs os s =
     (case cv_create k cs os (canvas s) of (i, cv) \<Rightarrow> Ok i (s\<lparr>canvas := cv\<rparr>))"

text \<open>Plain field updates, named for the source statement they model.\<close>

definition set_setting :: "(settings \<Rightarrow> settings) \<Rightarrow> unit prog" where
  "set_setting f = modify (\<lambda>s. s\<lparr>SETTINGS := f (SETTINGS s)\<rparr>)"

definition on_canvas :: "(tk_canvas \<Rightarrow> tk_canvas) \<Rightarrow> unit prog" where
  "on_canvas f = modify (\<lambda>s. s\<lparr>canvas := f (canvas s)\<rparr>)"

text \<open>\<open>self.root.after(ms, cb)\<close>\<close>

definition after :: "int \<Rightarrow> callback \<Rightarrow> unit prog" where
  "after ms cb = modify (\<lambda>s. s\<lparr>timers := timers s @ [(ms, cb)]\<rparr>)"

section \<open>\<open>draw_shape\<close>\<close>

text \<open>Lines 791-797: the UltraRandom overwrite of three settings.\<close>

definition ultra_random :: "unit prog" where
  "ultra_random =
     then_do (choice [True, False]) (\<lambda>outl.
     then_do (set_setting (\<lambda>st. st\<lparr>outline_only := outl\<rparr>)) (\<lambda>_.
     then_do (choice [True, False]) (\<lambda>m.
     then_do (set_setting (\<lambda>st. st\<lparr>mirror_drawing := m\<rparr>)) (\<lambda>_.
     then_do (choice [True, False]) (\<lambda>p.
       if p
       then then_do (collect 3 random_color) (\<lambda>cs.
              set_setting (\<lambda>st. st\<lparr>custom_palette := join_comma cs\<rparr>))
       else set_setting (\<lambda>st. st\<lparr>custom_palette := []\<rparr>))))))"

text \<open>Lines 798-799: the enabled shape types, in dictionary order, and the choice among
  them with its fallback.\<close>

definition available_shapes :: "app \<Rightarrow> shape_type list" where
  "available_shapes s = map fst (filter snd (SHAPE_TYPES s))"

definition choose_shape :: "shape_type prog" where
  "choose_shape =
     then_do (read available_shapes) (\<lambda>av.
       if av \<noteq> [] then choice av else ret Circle)"

text \<open>
  Lines 808-850: the branch of the shape type. It answers the handles appended to
  \<open>shape_record["items"]\<close> and the local \<open>width_line\<close>, which only the line branch binds.
\<close>

definition style :: "bool \<Rightarrow> string \<Rightarrow> (string \<times> tkval) list" where
  "style outline_flag color =
     (if outline_flag then [(''outline'', Str color), (''width'', Num 2), (''fill'', Str [])]
      else [(''fill'', Str color), (''outline'', Str color)])"

definition render :: "shape_type \<Rightarrow> int \<Rightarrow> int \<Rightarrow> int \<Rightarrow> string \<Rightarrow> bool \<Rightarrow> (nat list \<times> int option) prog" where
  "render shape sz x y color outline_flag =
     (case shape of
        Circle \<Rightarrow>
          then_do (create KOval [x - sz, y - sz, x + sz, y + sz] (style outline_flag color))
            (\<lambda>item. ret ([item], None))
      | Line \<Rightarrow>
          then_do (\<lambda>s. randint 0 (CANVAS_WIDTH s) s) (\<lambda>x2.
          then_do (\<lambda>s. randint 0 (CANVAS_HEIGHT s) s) (\<lambda>y2.
          then_do (randint 1 5) (\<lambda>width_line.
          then_do (create KLine [x, y, x2, y2] [(''fill'', Str color), (''width'', Num width_line)])
            (\<lambda>item. ret ([item], Some width_line)))))
      | Arc \<Rightarrow>
          then_do (randint 0 360) (\<lambda>start_angle.
          then_do (randint 30 180) (\<lambda>extent_angle.
          then_do (create KArc [x, y, x + sz, y + sz]
                     ([(''start'', Num start_angle), (''extent'', Num extent_angle)] @
                      (if outline_flag
                       then [(''outline'', Str color), (''style'', Str ''arc''), (''width'', Num 2)]
                       else [(''fill'', Str color), (''outline'', Str color)])))
            (\<lambda>item. ret ([item], None))))
      | Rectangle \<Rightarrow>
          then_do (create KRectangle [x, y, x + sz, y + sz] (style outline_flag color))
            (\<lambda>item. ret ([item], None))
      | Triangle \<Rightarrow>
          then_do (randint (- sz) sz) (\<lambda>dx2.
          then_do (randint (- sz) sz) (\<lambda>dy2.
          then_do (randint (- sz) sz) (\<lambda>dx3.
          then_do (randint (- sz) sz) (\<lambda>dy3.
          then_do (create KPolygon [x, y, x + dx2, y + dy2, x + dx3, y + dy3]
                     (if outline_flag
                      then [(''outline'', Str color), (''fill'', Str []), (''width'', Num 2)]
                      else [(''fill'', Str color), (''outline'', Str color)]))
            (\<lambda>item. ret ([item], None)))))))"

text \<open>Line 855: \<open>[W - val if idx % 2 == 0 else val for idx, val in enumerate(coords)]\<close>\<close>

definition mirrored_coords :: "int \<Rightarrow> int list \<Rightarrow> int list" where
  "mirrored_coords w cs =
     map (\<lambda>(idx, val). if idx mod 2 = 0 then w - val else val) (zip [0..<length cs] cs)"

text \<open>Lines 854-882: the mirror of one primitive; \<open>None\<close> is the source's \<open>m_item = None\<close>.\<close>

definition mirror_item :: "string \<Rightarrow> bool \<Rightarrow> int option \<Rightarrow> nat \<Rightarrow> nat option prog" where
  "mirror_item color outline_flag width_line item =
     then_do (read (\<lambda>s. cv_coords item (canvas s))) (\<lambda>cs.
     then_do (read (\<lambda>s. mirrored_coords (CANVAS_WIDTH s) cs)) (\<lambda>mcs.
     then_do (read (\<lambda>s. cv_type item (canvas s))) (\<lambda>item_type.
       case item_type of
         Some KOval \<Rightarrow> then_do (create KOval mcs (style outline_flag color)) (\<lambda>m. ret (Some m))
       | Some KLine \<Rightarrow>
           (case width_line of
              None \<Rightarrow> raise UnboundLocalError
            | Some w \<Rightarrow>
                then_do (create KLine mcs [(''fill'', Str color), (''width'', Num w)])
                  (\<lambda>m. ret (Some m)))
       | Some KArc \<Rightarrow>
           then_do (create KArc mcs
                      (if outline_flag
                       then [(''outline'', Str color), (''style'', Str ''arc''), (''width'', Num 2)]
                       else [(''fill'', Str color), (''outline'', Str color)]))
             (\<lambda>m. ret (Some m))
       | Some KRectangle \<Rightarrow>
           then_do (create KRectangle mcs (style outline_flag color)) (\<lambda>m. ret (Some m))
       | Some KPolygon \<Rightarrow>
           then_do (create KPolygon mcs
                      (if outline_flag
                       then [(''outline'', Str color), (''fill'', Str []), (''width'', Num 2)]
                       else [(''fill'', Str color), (''outline'', Str color)]))
             (\<lambda>m. ret (Some m))
       | _ \<Rightarrow> ret None)))"

text \<open>Lines 853-882: the loop over \<open>shape_record["items"]\<close>; \<open>if m_item:\<close> keeps a
  handle that is not \<open>None\<close> and not 0.\<close>

fun mirror_all :: "string \<Rightarrow> bool \<Rightarrow> int option \<Rightarrow> nat list \<Rightarrow> nat list prog" where
  "mirror_all color outline_flag width_line [] = ret []"
| "mirror_all color outline_flag width_line (item # rest) =
     then_do (mirror_item color outline_flag width_line item) (\<lambda>m_item.
     then_do (mirror_all color outline_flag width_line rest) (\<lambda>ms.
       ret (case m_item of None \<Rightarrow> ms | Some m \<Rightarrow> if m \<noteq> 0 then m # ms else ms)))"

definition draw_shape :: "unit prog" where
  "draw_shape =
     then_do (read special_mode) (\<lambda>mode.
     then_do (when_do (mode = ''UltraRandom'') ultra_random) (\<lambda>_.
     then_do choose_shape (\<lambda>shape.
     then_do (\<lambda>s. randint (min_shape_size (SETTINGS s)) (max_shape_size (SETTINGS s)) s) (\<lambda>sz.
     then_do (\<lambda>s. randint 0 (CANVAS_WIDTH s) s) (\<lambda>x.
     then_do (\<lambda>s. randint 0 (CANVAS_HEIGHT s) s) (\<lambda>y.
     then_do random_color (\<lambda>color.
     then_do (read (\<lambda>s. outline_only (SETTINGS s))) (\<lambda>outline_flag.
     then_do (render shape sz x y color outline_flag) (\<lambda>(its, width_line).
     then_do (read (\<lambda>s. mirror_drawing (SETTINGS s))) (\<lambda>mirror.
     then_do (if mirror
              then then_do (mirror_all color outline_flag width_line its) (\<lambda>ms. ret (Some ms))
              else ret None) (\<lambda>mirrors.
       modify (\<lambda>s. s\<lparr>draw_history := draw_history s @
                      [\<lparr>rec_type = shape, items = its, mirror_items = mirrors\<rparr>]\<rparr>))))))))))))"

section \<open>Grid, clear, undo\<close>

text \<open>\<open>range(0, stop, 50)\<close>\<close>

definition range_50 :: "int \<Rightarrow> int list" where
  "range_50 stop = map (\<lambda>k. 50 * int k) [0..<nat ((stop + 49) div 50)]"

fun for_each :: "'a list \<Rightarrow> ('a \<Rightarrow> unit prog) \<Rightarrow> unit prog" where
  "for_each [] body = ret ()"
| "for_each (a # as) body = then_do (body a) (\<lambda>_. for_each as body)"

definition grid_opts :: "(string \<times> tkval) list" where
  "grid_opts = [(''fill'', Str ''#333333''), (''dash'', Nums [2, 4]), (''tags'', Str ''grid'')]"

definition draw_grid :: "unit prog" where
  "draw_grid =
     then_do (read (\<lambda>s. grid_overlay (SETTINGS s))) (\<lambda>g.
       when_do g
         (then_do (read (\<lambda>s. (CANVAS_WIDTH s, CANVAS_HEIGHT s))) (\<lambda>(w, h).
          then_do (for_each (range_50 w)
                     (\<lambda>x. then_do (create KLine [x, 0, x, h] grid_opts) (\<lambda>_. ret ()))) (\<lambda>_.
          for_each (range_50 h)
            (\<lambda>y. then_do (create KLine [0, y, w, y] grid_opts) (\<lambda>_. ret ()))))))"

definition update_grid :: "unit prog" where
  "update_grid = then_do (on_canvas (cv_delete_tag ''grid'')) (\<lambda>_. draw_grid)"

definition create_meme_text :: "nat prog" where
  "create_meme_text s =
     create KText [CANVAS_WIDTH s div 2, CANVAS_HEIGHT s - 50]
       [(''text'', Str (meme_text (SETTINGS s))), (''fill'', Str ''white''),
        (''font'', Font (meme_font (SETTINGS s)) (meme_font_size (SETTINGS s)) ''bold'')] s"

definition create_watermark :: "nat prog" where
  "create_watermark s =
     create KText [CANVAS_WIDTH s - 80, CANVAS_HEIGHT s - 20]
       [(''text'', Str (watermark_text (SETTINGS s))), (''fill'', Str ''#888888''),
        (''font'', Font ''Arial'' 8 ''italic'')] s"

definition clear_canvas :: "unit prog" where
  "clear_canvas =
     then_do (on_canvas (cv_delete_tag ''all'')) (\<lambda>_.
     then_do (modify (\<lambda>s. s\<lparr>draw_history := []\<rparr>)) (\<lambda>_.
     then_do (modify (\<lambda>s. s\<lparr>frame_count := 0\<rparr>)) (\<lambda>_.
     then_do update_grid (\<lambda>_.
     then_do (read (\<lambda>s. meme_text (SETTINGS s))) (\<lambda>mt.
     then_do (when_do (mt \<noteq> [])
                (then_do create_meme_text (\<lambda>i. modify (\<lambda>s. s\<lparr>meme_text_id := Some i\<rparr>)))) (\<lambda>_.
     then_do (read (\<lambda>s. watermark_enabled (SETTINGS s))) (\<lambda>wm.
       when_do wm
         (then_do create_watermark (\<lambda>i. modify (\<lambda>s. s\<lparr>watermark_id := Some i\<rparr>))))))))))"

definition set_status :: "string \<Rightarrow> unit prog" where
  "set_status t = modify (\<lambda>s. s\<lparr>status := t\<rparr>)"

text \<open>\<open>last_shape.get("mirror_items", [])\<close>\<close>

definition get_mirror_items :: "shape_record \<Rightarrow> nat list" where
  "get_mirror_items r = (case mirror_items r of None \<Rightarrow> [] | Some ms \<Rightarrow> ms)"

definition undo_last_shape :: "unit prog" where
  "undo_last_shape =
     then_do (read draw_history) (\<lambda>h.
       if h \<noteq> []
       then then_do (modify (\<lambda>s. s\<lparr>draw_history := butlast h\<rparr>)) (\<lambda>_.
            then_do (for_each (items (last h)) (\<lambda>i. on_canvas (cv_delete i))) (\<lambda>_.
            then_do (for_each (get_mirror_items (last h)) (\<lambda>i. on_canvas (cv_delete i))) (\<lambda>_.
            set_status ''Last shape undone'')))
       else set_status ''No shapes to undo'')"

definition toggle_pause :: "unit prog" where
  "toggle_pause =
     then_do (modify (\<lambda>s. s\<lparr>paused := \<not> paused s\<rparr>)) (\<lambda>_.
     then_do (read paused) (\<lambda>p. set_status (if p then ''Paused'' else ''Running'')))"

section \<open>\<open>animate\<close>\<close>

text \<open>Lines 766-774.\<close>

definition meme_overlay :: "unit prog" where
  "meme_overlay =
     then_do (read (\<lambda>s. meme_text (SETTINGS s))) (\<lambda>mt.
       when_do (mt \<noteq> [])
         (then_do (read meme_text_id) (\<lambda>h.
          then_do (case h of
                     None \<Rightarrow> then_do create_meme_text (\<lambda>i. modify (\<lambda>s. s\<lparr>meme_text_id := Some i\<rparr>))
                   | Some i \<Rightarrow> on_canvas (cv_itemconfigure_text i mt)) (\<lambda>_.
          then_do (read meme_text_id) (\<lambda>h'.
            case h' of None \<Rightarrow> ret () | Some i \<Rightarrow> on_canvas (cv_tag_raise i))))))"

text \<open>Lines 775-787. \<open>if self.watermark_id:\<close> is false for \<open>None\<close> and for 0.\<close>

definition watermark_overlay :: "unit prog" where
  "watermark_overlay =
     then_do (read (\<lambda>s. watermark_enabled (SETTINGS s))) (\<lambda>wm.
       if wm
       then then_do (read watermark_id) (\<lambda>h.
            then_do (case h of
                       None \<Rightarrow> then_do create_watermark (\<lambda>i. modify (\<lambda>s. s\<lparr>watermark_id := Some i\<rparr>))
                     | Some i \<Rightarrow>
                         then_do (read (\<lambda>s. watermark_text (SETTINGS s))) (\<lambda>t.
                           on_canvas (cv_itemconfigure_text i t))) (\<lambda>_.
            then_do (read watermark_id) (\<lambda>h'.
              case h' of None \<Rightarrow> ret () | Some i \<Rightarrow> on_canvas (cv_tag_raise i))))
       else then_do (read watermark_id) (\<lambda>h.
              case h of
                None \<Rightarrow> ret ()
              | Some i \<Rightarrow>
                  when_do (i \<noteq> 0)
                    (then_do (on_canvas (cv_delete i)) (\<lambda>_.
                     modify (\<lambda>s. s\<lparr>watermark_id := None\<rparr>)))))"

text \<open>Lines 756-787: the body of \<open>if not self.paused\<close>.\<close>

definition animate_body :: "unit prog" where
  "animate_body =
     then_do (modify (\<lambda>s. s\<lparr>frame_count := frame_count s + 1\<rparr>)) (\<lambda>_.
     then_do (read drawing_mode_var) (\<lambda>mode.
     then_do (if mode = ''continuous'' then draw_shape
              else then_do (read (\<lambda>s. burst_count (SETTINGS s))) (\<lambda>n.
                     repeat (nat n) draw_shape)) (\<lambda>_.
     then_do (read (\<lambda>s. auto_clear_threshold (SETTINGS s) \<le> frame_count s)) (\<lambda>full.
     then_do (when_do full clear_canvas) (\<lambda>_.
     then_do (read (\<lambda>s. chaos_mode s \<and> frame_count s mod 50 = 0)) (\<lambda>chaos.
     then_do (when_do chaos
                (then_do random_color (\<lambda>c. modify (\<lambda>s. s\<lparr>canvas_bg := c\<rparr>)))) (\<lambda>_.
     then_do meme_overlay (\<lambda>_.
     watermark_overlay))))))))"

definition animate :: "unit prog" where
  "animate =
     then_do (read paused) (\<lambda>p.
     then_do (when_do (\<not> p) animate_body) (\<lambda>_.
     then_do (read speed_scale) (\<lambda>ms.
     after ms Animate)))"

section \<open>\<open>replay_history\<close>\<close>

text \<open>The nested function \<open>replay_next\<close>, with the \<open>history_copy\<close> it closes over.\<close>

definition replay_next :: "shape_record list \<Rightarrow> nat \<Rightarrow> unit prog" where
  "replay_next history_copy index =
     (if index < length history_copy
      then then_do draw_shape (\<lambda>_. after 50 (ReplayNext history_copy (index + 1)))
      else set_status ''Replay complete'')"

definition replay_history :: "unit prog" where
  "replay_history =
     then_do (read draw_history) (\<lambda>h.
       if h = [] then set_status ''No history to replay''
       else then_do clear_canvas (\<lambda>_.
            then_do (modify (\<lambda>s. s\<lparr>frame_count := 0\<rparr>)) (\<lambda>_.
            then_do (set_status ''Replaying history...'') (\<lambda>_.
            replay_next h 0))))"

section \<open>The event loop\<close>

text \<open>
  Tk runs a pending timer by taking it off its queue and calling its callback. An
  exception of the callback is reported and the loop goes on with the timers that are
  left; the callback reschedules itself only if it reaches its \<open>after\<close> call.
\<close>

fun remove_timer :: "callback \<Rightarrow> (int \<times> callback) list \<Rightarrow> (int \<times> callback) list" where
  "remove_timer cb [] = []"
| "remove_timer cb (t # ts) = (if snd t = cb then ts else t # remove_timer cb ts)"

fun run_callback :: "callback \<Rightarrow> unit prog" where
  "run_callback Animate = animate"
| "run_callback (ReplayNext history_copy index) = replay_next history_copy index"

definition fire :: "callback \<Rightarrow> unit prog" where
  "fire cb =
     then_do (modify (\<lambda>s. s\<lparr>timers := remove_timer cb (timers s)\<rparr>)) (\<lambda>_. run_callback cb)"

text \<open>\<open>n\<close> ticks of the animation timer, with nothing else in between.\<close>

definition ticks :: "nat \<Rightarrow> unit prog" where
  "ticks n = repeat n (fire Animate)"

text \<open>
  The replay timers and the animation timer wait in the same queue, and the animation
  timer is always pending once \<open>__init__\<close> has called \<open>animate\<close>. Which of them Tk runs
  first depends on their delays; \<open>gaps index\<close> is the number of animation ticks that run
  before the replay timer of \<open>index\<close> does. The replay timers are fired from \<open>index\<close> on
  until the one that finds the snapshot exhausted. A tick that raises ends the animation,
  not the replay: the replay timer runs in the state the ticks have left. A replay step
  that raises schedules no further one, and the run ends there with its exception. The
  other callbacks of the event loop (the poll of the controls, the commands of the user)
  are not part of this schedule.
\<close>

function replay_chain :: "(nat \<Rightarrow> nat) \<Rightarrow> shape_record list \<Rightarrow> nat \<Rightarrow> unit prog" where
  "replay_chain gaps history_copy index s =
     (case fire (ReplayNext history_copy index) (state_of (ticks (gaps index) s)) of
        Raised e s' \<Rightarrow> Raised e s'
      | Ok _ s' \<Rightarrow>
          if index < length history_copy then replay_chain gaps history_copy (Suc index) s'
          else Ok () s')"
  by pat_completeness auto
termination
  by (relation "measure (\<lambda>(g, h, i, s). Suc (length h) - i)") auto

text \<open>The replay command and all the timers it starts, with the animation ticks that fall
  between them.\<close>

definition replay_run :: "(nat \<Rightarrow> nat) \<Rightarrow> unit prog" where
  "replay_run gaps =
     then_do (read draw_history) (\<lambda>h.
     then_do replay_history (\<lambda>_.
       if h = [] then ret () else replay_chain gaps h 1))"

section \<open>\<open>set_random_seed\<close>\<close>

text \<open>
  \<open>int(text)\<close> is a builtin of the language, not code of this program. It is the
  parameter \<open>to_int\<close> of what follows: the integer \<open>int\<close> returns for a text, or \<open>None\<close>
  when \<open>int\<close> raises, which for a \<open>str\<close> argument is always a \<open>ValueError\<close>.
\<close>

definition call_int :: "(entry_text \<Rightarrow> int option) \<Rightarrow> entry_text \<Rightarrow> int prog" where
  "call_int to_int t = (case to_int t of None \<Rightarrow> raise ValueError | Some v \<Rightarrow> ret v)"

text \<open>\<open>f"{seed_val}"\<close>: the decimal text of the integer. A text that \<open>int\<close> accepts has no
  more digits than this conversion allows.\<close>

definition digit_char :: "nat \<Rightarrow> char" where
  "digit_char d = ''0123456789'' ! (d mod 10)"

function str_of_nat :: "nat \<Rightarrow> string" where
  "str_of_nat n = (if n < 10 then [digit_char n] else str_of_nat (n div 10) @ [digit_char n])"
  by pat_completeness auto
termination
  by (relation "measure id") auto

definition str_of_int :: "int \<Rightarrow> string" where
  "str_of_int i = (if i < 0 then CHR ''-'' # str_of_nat (nat (- i)) else str_of_nat (nat i))"

text \<open>\<open>try: body except Exception: handler\<close>\<close>

definition try_except :: "'a prog \<Rightarrow> 'a prog \<Rightarrow> 'a prog" where
  "try_except body handler s =
     (case body s of Raised e s' \<Rightarrow> handler s' | Ok a s' \<Rightarrow> Ok a s')"

text \<open>
  \<open>random.seed(v)\<close> replaces the generator by the one the seed determines. The seeding
  algorithm of the library is the parameter \<open>mt\<close>: the sequence of raw draws of each seed.
\<close>

definition seed :: "(int \<Rightarrow> nat \<Rightarrow> nat) \<Rightarrow> int \<Rightarrow> unit prog" where
  "seed mt v = modify (\<lambda>s. s\<lparr>rng := \<lparr>raw = mt v, pos = 0\<rparr>\<rparr>)"

definition set_random_seed ::
  "(entry_text \<Rightarrow> int option) \<Rightarrow> (int \<Rightarrow> nat \<Rightarrow> nat) \<Rightarrow> unit prog" where
  "set_random_seed to_int mt =
     try_except
       (then_do (then_do (read seed_entry) (call_int to_int)) (\<lambda>seed_val.
        then_do (seed mt seed_val) (\<lambda>_.
        then_do (set_setting (\<lambda>st. st\<lparr>random_seed := Some seed_val\<rparr>)) (\<lambda>_.
        set_status (''Seed set to '' @ str_of_int seed_val)))))
       (set_status ''Invalid seed value'')"

section \<open>The state \<open>__init__\<close> builds\<close>

definition init_settings :: settings where
  "init_settings =
     \<lparr>animation_speed = 50, auto_clear_threshold = 300, drawing_mode = ''continuous'',
      burst_count = 5, min_shape_size = 10, max_shape_size = 100, outline_only = False,
      mirror_drawing = False, grid_overlay = False, bg_color = ''#000000'',
      custom_palette = [], watermark_enabled = False, watermark_text = ''My Watermark'',
      meme_text = [], meme_font = ''Impact'', meme_font_size = 32, random_seed = None\<rparr>"

text \<open>The state at line 145, before the first call of \<open>animate\<close>, for a generator \<open>g\<close>.\<close>

definition init_app :: "(nat \<Rightarrow> nat) \<Rightarrow> app" where
  "init_app g =
     \<lparr>CANVAS_WIDTH = 800, CANVAS_HEIGHT = 600, paused = False, frame_count = 0,
      draw_history = [], meme_text_id = None, watermark_id = None,
      SETTINGS = init_settings,
      SHAPE_TYPES = [(Circle, True), (Line, True), (Arc, True), (Rectangle, True), (Triangle, True)],
      special_mode = ''Normal'', chaos_mode = False, drawing_mode_var = ''continuous'',
      speed_scale = 50, seed_entry = [],
      canvas = \<lparr>cv_items = [], created = 0\<rparr>, canvas_bg = ''#000000'', status = [],
      rng = \<lparr>raw = g, pos = 0\<rparr>, timers = []\<rparr>"

section \<open>Notions the properties are stated with\<close>

text \<open>Handles are never reused: every live handle is at most the number of primitives
  created so far. The empty canvas satisfies this and every canvas operation keeps it.\<close>

definition canvas_ok :: "tk_canvas \<Rightarrow> bool" where
  "canvas_ok cv = (\<forall>p \<in> set (cv_items cv). fst p \<le> created cv)"

text \<open>The settings under which no call of \<open>randint\<close> in \<open>draw_shape\<close> has an empty range.\<close>

definition can_draw :: "app \<Rightarrow> bool" where
  "can_draw s =
     (0 \<le> min_shape_size (SETTINGS s) \<and> min_shape_size (SETTINGS s) \<le> max_shape_size (SETTINGS s) \<and>
      0 \<le> CANVAS_WIDTH s \<and> 0 \<le> CANVAS_HEIGHT s \<and> canvas_ok (canvas s))"

text \<open>The kind of primitive each shape type is drawn as.\<close>

fun kind_of :: "shape_type \<Rightarrow> item_kind" where
  "kind_of Circle = KOval"
| "kind_of Line = KLine"
| "kind_of Arc = KArc"
| "kind_of Rectangle = KRectangle"
| "kind_of Triangle = KPolygon"

text \<open>The color of a primitive: the \<open>fill\<close> option of a line, the \<open>outline\<close> option of
  the others.\<close>

definition item_color :: "item \<Rightarrow> tkval option" where
  "item_color it =
     (if kind it = KLine then map_of (opts it) ''fill'' else map_of (opts it) ''outline'')"

text \<open>
  A coordinate list has size \<open>z\<close> for a shape type: a circle of radius \<open>z\<close>, an arc or a
  rectangle whose bounding box has side \<open>z\<close>, a triangle whose second and third vertex
  are within \<open>z\<close> of the first on each axis. A line does not use the size.
\<close>

fun has_size :: "shape_type \<Rightarrow> int \<Rightarrow> int list \<Rightarrow> bool" where
  "has_size Circle z [x1, y1, x2, y2] = (x2 - x1 = 2 * z \<and> y2 - y1 = 2 * z)"
| "has_size Arc z [x1, y1, x2, y2] = (x2 - x1 = z \<and> y2 - y1 = z)"
| "has_size Rectangle z [x1, y1, x2, y2] = (x2 - x1 = z \<and> y2 - y1 = z)"
| "has_size Triangle z [x1, y1, x2, y2, x3, y3] =
     (\<bar>x2 - x1\<bar> \<le> z \<and> \<bar>y2 - y1\<bar> \<le> z \<and> \<bar>x3 - x1\<bar> \<le> z \<and> \<bar>y3 - y1\<bar> \<le> z)"
| "has_size Line z cs = True"
| "has_size _ z cs = False"

text \<open>The record \<open>draw_shape\<close> appended last, and the primitive behind a handle.\<close>

definition last_record :: "app \<Rightarrow> shape_record" where
  "last_record s = last (draw_history s)"

definition item_of :: "nat \<Rightarrow> app \<Rightarrow> item option" where
  "item_of i s = map_of (cv_items (canvas s)) i"

text \<open>What no statement of a tick or of a replay changes: the canvas size, the pause flag,
  the enabled shapes, the drawing mode, the speed control, the size bounds, the auto-clear
  threshold and the burst count; and handles stay unused once they were.\<close>

definition kept :: "app \<Rightarrow> app \<Rightarrow> bool" where
  "kept s s' =
     (CANVAS_WIDTH s' = CANVAS_WIDTH s \<and> CANVAS_HEIGHT s' = CANVAS_HEIGHT s \<and>
      paused s' = paused s \<and> SHAPE_TYPES s' = SHAPE_TYPES s \<and>
      drawing_mode_var s' = drawing_mode_var s \<and> speed_scale s' = speed_scale s \<and>
      min_shape_size (SETTINGS s') = min_shape_size (SETTINGS s) \<and>
      max_shape_size (SETTINGS s') = max_shape_size (SETTINGS s) \<and>
      auto_clear_threshold (SETTINGS s') = auto_clear_threshold (SETTINGS s) \<and>
      burst_count (SETTINGS s') = burst_count (SETTINGS s) \<and>
      (canvas_ok (canvas s) \<longrightarrow> canvas_ok (canvas s')))"

text \<open>A statement that always returns and leaves the frame counter, the draw history, the
  timers and the status line alone.\<close>

definition calm :: "'a prog \<Rightarrow> bool" where
  "calm m =
     (\<forall>s. \<exists>a s'. m s = Ok a s' \<and> kept s s' \<and> frame_count s' = frame_count s \<and>
        draw_history s' = draw_history s \<and> timers s' = timers s \<and> status s' = status s)"

text \<open>The number of draws of one tick.\<close>

definition draws_per_tick :: "app \<Rightarrow> nat" where
  "draws_per_tick s =
     (if drawing_mode_var s = ''continuous'' then 1 else nat (burst_count (SETTINGS s)))"

text \<open>What the type of a freshly drawn shape can be: one of the enabled types, or
  \<open>circle\<close> when none is enabled.\<close>

definition sampled_type :: "app \<Rightarrow> shape_type \<Rightarrow> bool" where
  "sampled_type s t =
     (if available_shapes s = [] then t = Circle else t \<in> set (available_shapes s))"

text \<open>The handles a record stands for: its primitive and the mirror copy, if any.\<close>

definition record_handles :: "shape_record \<Rightarrow> nat list" where
  "record_handles r = items r @ get_mirror_items r"

text \<open>A record is rendered in a state: its one primitive is live on the canvas and is of
  the kind its shape type is drawn as.\<close>

definition rendered :: "app \<Rightarrow> shape_record \<Rightarrow> bool" where
  "rendered s r =
     (case items r of
        [i] \<Rightarrow> (case item_of i s of None \<Rightarrow> False | Some it \<Rightarrow> kind it = kind_of (rec_type r))
      | _ \<Rightarrow> False)"

text \<open>Every live primitive of a canvas was created after the first \<open>c0\<close> ones; and a
  statement that, when it returns, leaves this so.\<close>

definition above :: "nat \<Rightarrow> tk_canvas \<Rightarrow> bool" where
  "above c0 cv = (canvas_ok cv \<and> c0 \<le> created cv \<and> (\<forall>p \<in> set (cv_items cv). c0 < fst p))"

definition keeps_above :: "'a prog \<Rightarrow> bool" where
  "keeps_above m =
     (\<forall>c0 s a s'. above c0 (canvas s) \<and> m s = Ok a s' \<longrightarrow> above c0 (canvas s'))"

text \<open>The palette list the specification speaks of: the colors of the comma-separated
  \<open>custom_palette\<close> text; the empty text is the empty palette.\<close>

fun split_commas :: "string \<Rightarrow> string list" where
  "split_commas [] = [[]]"
| "split_commas (c # cs) =
     (if c = CHR '','' then [] # split_commas cs
      else (case split_commas cs of [] \<Rightarrow> [[c]] | w # ws \<Rightarrow> (c # w) # ws))"

definition palette_list :: "string \<Rightarrow> string list" where
  "palette_list t = (if t = [] then [] else split_commas t)"

text \<open>The same state with another custom palette, and a result carried over to it.\<close>

definition with_palette :: "string \<Rightarrow> app \<Rightarrow> app" where
  "with_palette p s = s\<lparr>SETTINGS := (SETTINGS s)\<lparr>custom_palette := p\<rparr>\<rparr>"

definition res_with_palette :: "string \<Rightarrow> 'a res \<Rightarrow> 'a res" where
  "res_with_palette p r =
     (case r of Ok a s \<Rightarrow> Ok a (with_palette p s) | Raised e s \<Rightarrow> Raised e (with_palette p s))"

text \<open>A statement that does not look at the custom palette: run with another palette, it
  does the same and leaves that palette in place.\<close>

definition palette_blind :: "string \<Rightarrow> 'a prog \<Rightarrow> bool" where
  "palette_blind p m = (\<forall>s. m (with_palette p s) = res_with_palette p (m s))"

text \<open>The statements of \<open>draw_shape\<close> from line 798 on, after the UltraRandom overwrite.\<close>

definition draw_sampled :: "unit prog" where
  "draw_sampled =
     then_do choose_shape (\<lambda>shape.
     then_do (\<lambda>s. randint (min_shape_size (SETTINGS s)) (max_shape_size (SETTINGS s)) s) (\<lambda>sz.
     then_do (\<lambda>s. randint 0 (CANVAS_WIDTH s) s) (\<lambda>x.
     then_do (\<lambda>s. randint 0 (CANVAS_HEIGHT s) s) (\<lambda>y.
     then_do random_color (\<lambda>color.
     then_do (read (\<lambda>s. outline_only (SETTINGS s))) (\<lambda>outline_flag.
     then_do (render shape sz x y color outline_flag) (\<lambda>(its, width_line).
     then_do (read (\<lambda>s. mirror_drawing (SETTINGS s))) (\<lambda>mirror.
     then_do (if mirror
              then then_do (mirror_all color outline_flag width_line its) (\<lambda>ms. ret (Some ms))
              else ret None) (\<lambda>mirrors.
       modify (\<lambda>s. s\<lparr>draw_history := draw_history s @
                      [\<lparr>rec_type = shape, items = its, mirror_items = mirrors\<rparr>]\<rparr>))))))))))"

section \<open>Example states\<close>

text \<open>A generator used in the examples: its raw draws are 3, 10, 17, ...\<close>

definition demo_gen :: "nat \<Rightarrow> nat" where
  "demo_gen n = 7 * n + 3"

text \<open>A seeding algorithm used in the examples.\<close>

definition demo_mt :: "int \<Rightarrow> nat \<Rightarrow> nat" where
  "demo_mt v n = nat \<bar>v\<bar> + n"

text \<open>The initial state with the driver paused.\<close>

definition paused_app :: app where
  "paused_app = (init_app demo_gen)\<lparr>paused := True\<rparr>"

text \<open>The initial state with a text of ASCII characters typed into the seed entry.\<close>

definition ascii :: "string \<Rightarrow> entry_text" where
  "ascii t = map of_char t"

definition seed_app :: "string \<Rightarrow> app" where
  "seed_app t = (init_app demo_gen)\<lparr>seed_entry := ascii t\<rparr>"

text \<open>
  What \<open>int\<close> does at the two texts of the example: \<open>int(" -42")\<close> is \<open>-42\<close>, and
  \<open>int("12x")\<close> raises \<open>ValueError\<close>. The function below has these two values and stands
  for \<open>int\<close> at these two texts only.
\<close>

definition example_int :: "entry_text \<Rightarrow> int option" where
  "example_int t = (if t = ascii '' -42'' then Some (- 42) else None)"

text \<open>The initial state with mirroring switched on.\<close>

definition mirror_app :: app where
  "mirror_app = (init_app demo_gen)\<lparr>SETTINGS := init_settings\<lparr>mirror_drawing := True\<rparr>\<rparr>"

text \<open>The initial state with both sizes 10 and only circles enabled.\<close>

definition fixed_size_app :: app where
  "fixed_size_app =
     (init_app demo_gen)\<lparr>SETTINGS := init_settings\<lparr>min_shape_size := 10, max_shape_size := 10\<rparr>,
       SHAPE_TYPES := [(Circle, True), (Line, False), (Arc, False), (Rectangle, False), (Triangle, False)]\<rparr>"

text \<open>The initial state with every shape type switched off.\<close>

definition no_shapes_app :: app where
  "no_shapes_app =
     (init_app demo_gen)\<lparr>SHAPE_TYPES :=
        [(Circle, False), (Line, False), (Arc, False), (Rectangle, False), (Triangle, False)]\<rparr>"

text \<open>The initial state with an auto-clear threshold of 3 frames.\<close>

definition threshold3_app :: app where
  "threshold3_app = (init_app demo_gen)\<lparr>SETTINGS := init_settings\<lparr>auto_clear_threshold := 3\<rparr>\<rparr>"

text \<open>Burst mode with the size bounds the wrong way round, as \<open>import_settings\<close> can
  leave them, and the animation timer pending.\<close>

definition inverted_sizes_app :: app where
  "inverted_sizes_app =
     (init_app demo_gen)\<lparr>drawing_mode_var := ''burst'',
        SETTINGS := init_settings\<lparr>min_shape_size := 60, max_shape_size := 50\<rparr>,
        timers := [(50, Animate)]\<rparr>"

text \<open>A history of one line, drawn before, with every shape type enabled.\<close>

definition line_history_app :: app where
  "line_history_app =
     (init_app demo_gen)\<lparr>
        draw_history := [\<lparr>rec_type = Line, items = [1], mirror_items = None\<rparr>],
        canvas := \<lparr>cv_items = [(1, \<lparr>kind = KLine, coords = [5, 5, 90, 40],
                                     opts = [(''fill'', Str ''#a0b1c2''), (''width'', Num 3)]\<rparr>)],
                   created = 1\<rparr>\<rparr>"

text \<open>The same history with the animation timer pending, as it is once \<open>__init__\<close> has
  run.\<close>

definition running_line_app :: app where
  "running_line_app = line_history_app\<lparr>timers := [(50, Animate)]\<rparr>"

text \<open>A history of a line and a circle, drawn before, with the driver paused and the
  animation timer pending.\<close>

definition paused_pair_app :: app where
  "paused_pair_app =
     (init_app demo_gen)\<lparr>
        paused := True,
        draw_history := [\<lparr>rec_type = Line, items = [1], mirror_items = None\<rparr>,
                         \<lparr>rec_type = Circle, items = [2], mirror_items = None\<rparr>],
        canvas := \<lparr>cv_items = [(1, \<lparr>kind = KLine, coords = [5, 5, 90, 40],
                                     opts = [(''fill'', Str ''#a0b1c2''), (''width'', Num 3)]\<rparr>),
                                (2, \<lparr>kind = KOval, coords = [20, 30, 60, 70],
                                     opts = [(''fill'', Str ''#0000ff''), (''outline'', Str ''#0000ff'')]\<rparr>)],
                   created = 2\<rparr>,
        timers := [(50, Animate)]\<rparr>"

text \<open>The initial state with a custom palette of two colors.\<close>

definition palette_app :: app where
  "palette_app = (init_app demo_gen)\<lparr>SETTINGS := init_settings\<lparr>custom_palette := ''#ff0000,#00ff00''\<rparr>\<rparr>"

section \<open>Running statements\<close>

lemma ret_apply [simp]: "ret a s = Ok a s"
  by (simp add: ret_def)

lemma raise_apply [simp]: "raise e s = Raised e s"
  by (simp add: raise_def)

lemma read_apply [simp]: "read g s = Ok (g s) s"
  by (simp add: read_def)

lemma modify_apply [simp]: "modify g s = Ok () (g s)"
  by (simp add: modify_def)

lemma when_do_apply [simp]: "when_do b m s = (if b then m s else Ok () s)"
  by (simp add: when_do_def)

lemma then_do_Ok: "m s = Ok a s' \<Longrightarrow> then_do m f s = f a s'"
  by (simp add: then_do_def)

lemma then_do_Raised: "m s = Raised e s' \<Longrightarrow> then_do m f s = Raised e s'"
  by (simp add: then_do_def)

lemma then_do_OkD:
  "then_do m f s = Ok b s'' \<Longrightarrow> \<exists>a s'. m s = Ok a s' \<and> f a s' = Ok b s''"
  by (simp add: then_do_def split: res.splits)

lemma state_of_simps [simp]: "state_of (Ok a s) = s" "state_of (Raised e s) = s"
  by (simp_all add: state_of_def)

lemma is_ok_simps [simp]: "is_ok (Ok a s)" "\<not> is_ok (Raised e s)"
  by (simp_all add: is_ok_def)

lemma set_status_apply: "set_status t s = Ok () (s\<lparr>status := t\<rparr>)"
  by (simp add: set_status_def)

lemma after_apply: "after ms cb s = Ok () (s\<lparr>timers := timers s @ [(ms, cb)]\<rparr>)"
  by (simp add: after_def)

section \<open>The statements of \<open>draw_shape\<close>, one by one\<close>

lemma then_do_OkE:
  assumes "then_do m f s = Ok b s''"
  obtains a s' where "m s = Ok a s'" "f a s' = Ok b s''"
  using assms by (auto simp: then_do_def split: res.splits)

lemma randint_apply:
  "randint a b s = (if b < a then Raised ValueError s
     else Ok (a + int (raw (rng s) (pos (rng s)) mod nat (b - a + 1))) (s\<lparr>rng := (rng s)\<lparr>pos := Suc (pos (rng s))\<rparr>\<rparr>))"
  by (simp add: randint_def then_do_def randbelow_def)

lemma randint_range:
  assumes "a \<le> b"
  shows "a \<le> a + int (k mod nat (b - a + 1)) \<and> a + int (k mod nat (b - a + 1)) \<le> b"
proof -
  have "k mod nat (b - a + 1) < nat (b - a + 1)"
    using assms by simp
  then show ?thesis using assms by linarith
qed

lemma randint_OkD:
  assumes "randint a b s = Ok v s'"
  shows "a \<le> v \<and> v \<le> b \<and> (\<exists>r. s' = s\<lparr>rng := r\<rparr>)"
proof -
  from assms have le: "a \<le> b" by (simp add: randint_apply split: if_splits)
  from assms le have v: "v = a + int (raw (rng s) (pos (rng s)) mod nat (b - a + 1))"
    and s': "s' = s\<lparr>rng := (rng s)\<lparr>pos := Suc (pos (rng s))\<rparr>\<rparr>"
    by (simp_all add: randint_apply)
  from randint_range [OF le] v s' show ?thesis by blast
qed

lemma randint_Ok:
  assumes "a \<le> b"
  shows "\<exists>v r. randint a b s = Ok v (s\<lparr>rng := r\<rparr>) \<and> a \<le> v \<and> v \<le> b"
  using assms randint_range [OF assms] by (simp add: randint_apply) blast

lemma randint_RaisedD:
  "randint a b s = Raised e s' \<Longrightarrow> e = ValueError \<and> b < a \<and> s' = s"
  by (simp add: randint_apply split: if_splits)

lemma choice_apply:
  "choice (x # xs) s = Ok ((x # xs) ! (raw (rng s) (pos (rng s)) mod Suc (length xs))) (s\<lparr>rng := (rng s)\<lparr>pos := Suc (pos (rng s))\<rparr>\<rparr>)"
  by (simp add: choice_def then_do_def randbelow_def)

lemma choice_Ok:
  assumes "xs \<noteq> []"
  shows "\<exists>x r. choice xs s = Ok x (s\<lparr>rng := r\<rparr>) \<and> x \<in> set xs"
proof -
  from assms obtain y ys where xs: "xs = y # ys" by (cases xs) auto
  have "raw (rng s) (pos (rng s)) mod Suc (length ys) < length (y # ys)" by simp
  then have "(y # ys) ! (raw (rng s) (pos (rng s)) mod Suc (length ys)) \<in> set (y # ys)"
    by (rule nth_mem)
  then show ?thesis unfolding xs choice_apply by blast
qed

lemma same_rng: "s\<lparr>rng := rng s\<rparr> = s" by simp

lemma choose_shape_Ok:
  "\<exists>shape r. choose_shape s = Ok shape (s\<lparr>rng := r\<rparr>) \<and>
     (if available_shapes s = [] then shape = Circle else shape \<in> set (available_shapes s))"
proof (cases "available_shapes s = []")
  case True
  then have "choose_shape s = Ok Circle (s\<lparr>rng := rng s\<rparr>)"
    by (simp add: choose_shape_def then_do_def)
  with True show ?thesis by (metis (full_types))
next
  case False
  from choice_Ok [OF False, of s] obtain x r where
    "choice (available_shapes s) s = Ok x (s\<lparr>rng := r\<rparr>)" "x \<in> set (available_shapes s)" by blast
  with False have "choose_shape s = Ok x (s\<lparr>rng := r\<rparr>)"
    by (simp add: choose_shape_def then_do_def)
  with False \<open>x \<in> set (available_shapes s)\<close> show ?thesis by auto
qed

lemma random_color_Ok:
  "\<exists>n r. random_color s = Ok (hex_color n) (s\<lparr>rng := r\<rparr>) \<and> 0 \<le> n \<and> n \<le> 0xFFFFFF"
proof -
  from randint_Ok [of 0 "0xFFFFFF" s] obtain v r where
    "randint 0 0xFFFFFF s = Ok v (s\<lparr>rng := r\<rparr>)" "0 \<le> v" "v \<le> 0xFFFFFF" by auto
  then show ?thesis by (auto simp: random_color_def then_do_def)
qed

lemma collect_3: "collect 3 m = then_do m (\<lambda>a. then_do m (\<lambda>b. then_do m (\<lambda>c. ret [a, b, c])))"
  by (simp add: eval_nat_numeral then_do_def fun_eq_iff split: res.splits)

lemma ultra_random_Ok:
  "\<exists>a b p r. ultra_random s =
     Ok () (s\<lparr>SETTINGS := (SETTINGS s)\<lparr>outline_only := a, mirror_drawing := b, custom_palette := p\<rparr>, rng := r\<rparr>)"
proof -
  have "\<exists>s'. ultra_random s = Ok () s' \<and>
      s' = s\<lparr>SETTINGS := (SETTINGS s)\<lparr>outline_only := outline_only (SETTINGS s'),
                 mirror_drawing := mirror_drawing (SETTINGS s'),
                 custom_palette := custom_palette (SETTINGS s')\<rparr>, rng := rng s'\<rparr>"
    by (simp add: ultra_random_def then_do_def choice_apply collect_3 random_color_def
        randint_apply set_setting_def)
  then show ?thesis by metis
qed

lemma pre_Ok:
  "\<exists>a b p r. when_do c ultra_random s =
     Ok () (s\<lparr>SETTINGS := (SETTINGS s)\<lparr>outline_only := a, mirror_drawing := b, custom_palette := p\<rparr>, rng := r\<rparr>)"
proof (cases c)
  case True
  then show ?thesis using ultra_random_Ok [of s] by simp
next
  case False
  have "s = s\<lparr>SETTINGS := (SETTINGS s)\<lparr>outline_only := outline_only (SETTINGS s),
      mirror_drawing := mirror_drawing (SETTINGS s), custom_palette := custom_palette (SETTINGS s)\<rparr>, rng := rng s\<rparr>"
    by simp
  with False show ?thesis by (metis when_do_apply)
qed


lemma create_apply:
  "create k cs os s = Ok (Suc (created (canvas s)))
     (s\<lparr>canvas := (canvas s)\<lparr>cv_items := cv_items (canvas s) @ [(Suc (created (canvas s)), \<lparr>kind = k, coords = cs, opts = os\<rparr>)],
                    created := Suc (created (canvas s))\<rparr>\<rparr>)"
  by (simp add: create_def cv_create_def Let_def)

lemma render_OkD:
  assumes "render shape sz x y color ol s = Ok (its, w) s'"
  shows "\<exists>it r. its = [Suc (created (canvas s))] \<and>
           s' = s\<lparr>rng := r, canvas := (canvas s)\<lparr>cv_items := cv_items (canvas s) @ [(Suc (created (canvas s)), it)],
                                                  created := Suc (created (canvas s))\<rparr>\<rparr> \<and>
           kind it = kind_of shape \<and> (shape = Line \<longrightarrow> w \<noteq> None) \<and>
           has_size shape sz (coords it) \<and> item_color it = Some (Str color)"
proof -
  define it where "it = snd (last (cv_items (canvas s')))"
  have "its = [Suc (created (canvas s))] \<and>
        s' = s\<lparr>rng := rng s', canvas := (canvas s)\<lparr>cv_items := cv_items (canvas s) @ [(Suc (created (canvas s)), it)],
                                                  created := Suc (created (canvas s))\<rparr>\<rparr> \<and>
        kind it = kind_of shape \<and> (shape = Line \<longrightarrow> w \<noteq> None) \<and>
        has_size shape sz (coords it) \<and> item_color it = Some (Str color)"
    using assms unfolding it_def
    by (cases shape)
       (auto simp: render_def create_apply style_def item_color_def abs_le_iff
             elim!: then_do_OkE dest!: randint_OkD)
  then show ?thesis by blast
qed

lemma render_Ok:
  assumes "0 \<le> sz" "0 \<le> CANVAS_WIDTH s" "0 \<le> CANVAS_HEIGHT s"
  shows "\<exists>its w s'. render shape sz x y color ol s = Ok (its, w) s'"
  using assms
  by (cases shape) (simp_all add: render_def then_do_def randint_apply create_apply)

lemma map_of_fresh:
  assumes "canvas_ok cv"
  shows "map_of (cv_items cv @ [(Suc (created cv), it)]) (Suc (created cv)) = Some it"
proof -
  have "Suc (created cv) \<notin> fst ` set (cv_items cv)"
    using assms by (force simp: canvas_ok_def)
  then have "map_of (cv_items cv) (Suc (created cv)) = None"
    by (simp add: map_of_eq_None_iff)
  then show ?thesis by (simp add: map_of_append map_add_def)
qed

lemma mirror_all_one:
  assumes "map_of (cv_items (canvas s)) i = Some it" "kind it = kind_of shape"
    "shape = Line \<longrightarrow> w \<noteq> None"
  shows "\<exists>mit. mirror_all color ol w [i] s =
           Ok [Suc (created (canvas s))]
              (s\<lparr>canvas := (canvas s)\<lparr>cv_items := cv_items (canvas s) @ [(Suc (created (canvas s)), mit)],
                                      created := Suc (created (canvas s))\<rparr>\<rparr>) \<and>
           kind mit = kind it \<and> coords mit = mirrored_coords (CANVAS_WIDTH s) (coords it) \<and>
           item_color mit = Some (Str color)"
proof -
  have "\<exists>ms s'. mirror_all color ol w [i] s = Ok ms s' \<and> ms = [Suc (created (canvas s))] \<and>
          s' = s\<lparr>canvas := (canvas s)\<lparr>cv_items := cv_items (canvas s) @
                     [(Suc (created (canvas s)), snd (last (cv_items (canvas s'))))],
                   created := Suc (created (canvas s))\<rparr>\<rparr> \<and>
          kind (snd (last (cv_items (canvas s')))) = kind it \<and>
          coords (snd (last (cv_items (canvas s')))) = mirrored_coords (CANVAS_WIDTH s) (coords it) \<and>
          item_color (snd (last (cv_items (canvas s')))) = Some (Str color)"
    using assms
    by (cases shape)
       (auto simp: mirror_item_def then_do_def cv_type_def cv_coords_def create_apply
             style_def item_color_def)
  then show ?thesis by metis
qed

section \<open>What a successful \<open>draw_shape\<close> did\<close>

lemma draw_shape_OkD:
  assumes ok: "draw_shape s = Ok () s'" and cv: "canvas_ok (canvas s)"
  shows "\<exists>a b p r shape sz n it mit.
     s' = s\<lparr>SETTINGS := (SETTINGS s)\<lparr>outline_only := a, mirror_drawing := b, custom_palette := p\<rparr>,
            rng := r,
            canvas := (canvas s)\<lparr>cv_items := cv_items (canvas s) @ (Suc (created (canvas s)), it) #
                                     (if b then [(Suc (Suc (created (canvas s))), mit)] else []),
                                  created := (if b then Suc (Suc (created (canvas s))) else Suc (created (canvas s)))\<rparr>,
            draw_history := draw_history s @
               [\<lparr>rec_type = shape, items = [Suc (created (canvas s))],
                 mirror_items = (if b then Some [Suc (Suc (created (canvas s)))] else None)\<rparr>]\<rparr> \<and>
     (if available_shapes s = [] then shape = Circle else shape \<in> set (available_shapes s)) \<and>
     min_shape_size (SETTINGS s) \<le> sz \<and> sz \<le> max_shape_size (SETTINGS s) \<and>
     0 \<le> n \<and> n \<le> 0xFFFFFF \<and>
     kind it = kind_of shape \<and> has_size shape sz (coords it) \<and>
     item_color it = Some (Str (hex_color n)) \<and>
     (b \<longrightarrow> kind mit = kind it \<and> coords mit = mirrored_coords (CANVAS_WIDTH s) (coords it) \<and>
            item_color mit = Some (Str (hex_color n)))"
proof -
  from ok [unfolded draw_shape_def]
  obtain s1 shape s2 sz s3 x s4 y s5 color s6 its w s7 mirrors s8 where
    st1: "when_do (special_mode s = ''UltraRandom'') ultra_random s = Ok () s1" and
    st2: "choose_shape s1 = Ok shape s2" and
    st3: "randint (min_shape_size (SETTINGS s2)) (max_shape_size (SETTINGS s2)) s2 = Ok sz s3" and
    st4: "randint 0 (CANVAS_WIDTH s3) s3 = Ok x s4" and
    st5: "randint 0 (CANVAS_HEIGHT s4) s4 = Ok y s5" and
    st6: "random_color s5 = Ok color s6" and
    st7: "render shape sz x y color (outline_only (SETTINGS s6)) s6 = Ok (its, w) s7" and
    st8: "(if mirror_drawing (SETTINGS s7)
           then then_do (mirror_all color (outline_only (SETTINGS s6)) w its) (\<lambda>ms. ret (Some ms))
           else ret None) s7 = Ok mirrors s8" and
    st9: "s' = s8\<lparr>draw_history := draw_history s8 @
                  [\<lparr>rec_type = shape, items = its, mirror_items = mirrors\<rparr>]\<rparr>"
    apply (elim then_do_OkE)
    apply (simp del: when_do_apply split: prod.splits)
    apply (elim then_do_OkE)
    apply (simp del: when_do_apply)
    apply blast
    done
  let ?i = "Suc (created (canvas s))"
  from pre_Ok [of "special_mode s = ''UltraRandom''" s] st1
  obtain a b p r1 where s1: "s1 = s\<lparr>SETTINGS := (SETTINGS s)\<lparr>outline_only := a,
      mirror_drawing := b, custom_palette := p\<rparr>, rng := r1\<rparr>"
    by auto
  from choose_shape_Ok [of s1] st2
  obtain r2 where s2: "s2 = s1\<lparr>rng := r2\<rparr>"
    and sh: "if available_shapes s1 = [] then shape = Circle else shape \<in> set (available_shapes s1)"
    by auto
  from randint_OkD [OF st3]
  obtain r3 where sz: "min_shape_size (SETTINGS s2) \<le> sz" "sz \<le> max_shape_size (SETTINGS s2)"
    and s3: "s3 = s2\<lparr>rng := r3\<rparr>"
    by auto
  from randint_OkD [OF st4] obtain r4 where s4: "s4 = s3\<lparr>rng := r4\<rparr>" by auto
  from randint_OkD [OF st5] obtain r5 where s5: "s5 = s4\<lparr>rng := r5\<rparr>" by auto
  from random_color_Ok [of s5] st6
  obtain n r6 where col: "color = hex_color n" and n: "0 \<le> n" "n \<le> 0xFFFFFF"
    and s6: "s6 = s5\<lparr>rng := r6\<rparr>"
    by auto
  from render_OkD [OF st7]
  obtain it r7 where its: "its = [Suc (created (canvas s6))]"
    and s7: "s7 = s6\<lparr>rng := r7, canvas := (canvas s6)\<lparr>cv_items := cv_items (canvas s6) @
                 [(Suc (created (canvas s6)), it)], created := Suc (created (canvas s6))\<rparr>\<rparr>"
    and it: "kind it = kind_of shape" "shape = Line \<longrightarrow> w \<noteq> None"
      "has_size shape sz (coords it)" "item_color it = Some (Str color)"
    by (elim exE conjE) (rule that)
  have cv6: "canvas s6 = canvas s"
    by (simp add: s6 s5 s4 s3 s2 s1)
  have "available_shapes s1 = available_shapes s"
    by (simp add: available_shapes_def s1)
  with sh have sh': "if available_shapes s = [] then shape = Circle else shape \<in> set (available_shapes s)"
    by (auto split: if_splits)
  have bounds: "min_shape_size (SETTINGS s) \<le> sz" "sz \<le> max_shape_size (SETTINGS s)"
    using sz by (simp_all add: s2 s1)
  note it' = it(1,3,4) [unfolded col]
  show ?thesis
  proof (cases b)
    case False
    then have "mirror_drawing (SETTINGS s7) = False"
      by (simp add: s7 s6 s5 s4 s3 s2 s1)
    with st8 have "mirrors = None" "s8 = s7" by simp_all
    with st9 False have "s' = s\<lparr>SETTINGS := (SETTINGS s)\<lparr>outline_only := a, mirror_drawing := b, custom_palette := p\<rparr>,
            rng := r7,
            canvas := (canvas s)\<lparr>cv_items := cv_items (canvas s) @ (?i, it) #
                                     (if b then [(Suc ?i, it)] else []),
                                  created := (if b then Suc ?i else ?i)\<rparr>,
            draw_history := draw_history s @
               [\<lparr>rec_type = shape, items = [?i],
                 mirror_items = (if b then Some [Suc ?i] else None)\<rparr>]\<rparr>"
      by (simp add: its s7 s6 s5 s4 s3 s2 s1)
    with False sh' bounds n it' show ?thesis
      apply (rule_tac x = a in exI, rule_tac x = b in exI, rule_tac x = p in exI)
      apply (rule_tac x = r7 in exI, rule_tac x = shape in exI, rule_tac x = sz in exI)
      apply (rule_tac x = n in exI, rule_tac x = it in exI, rule_tac x = it in exI)
      apply simp
      done
  next
    case True
    then have m: "mirror_drawing (SETTINGS s7)"
      by (simp add: s7 s6 s5 s4 s3 s2 s1)
    have look: "map_of (cv_items (canvas s7)) ?i = Some it"
      using map_of_fresh [OF cv, of it] by (simp add: s7 cv6)
    from mirror_all_one [OF look it(1) it(2), of color "outline_only (SETTINGS s6)"]
    obtain mit where
      ma: "mirror_all color (outline_only (SETTINGS s6)) w [?i] s7 =
             Ok [Suc (created (canvas s7))]
               (s7\<lparr>canvas := (canvas s7)\<lparr>cv_items := cv_items (canvas s7) @
                    [(Suc (created (canvas s7)), mit)], created := Suc (created (canvas s7))\<rparr>\<rparr>)"
      and mit: "kind mit = kind it" "coords mit = mirrored_coords (CANVAS_WIDTH s7) (coords it)"
        "item_color mit = Some (Str color)"
      by blast
    from st8 m ma have "mirrors = Some [Suc (created (canvas s7))]"
      and "s8 = s7\<lparr>canvas := (canvas s7)\<lparr>cv_items := cv_items (canvas s7) @
                    [(Suc (created (canvas s7)), mit)], created := Suc (created (canvas s7))\<rparr>\<rparr>"
      by (simp_all add: its cv6 then_do_def)
    with st9 True have "s' = s\<lparr>SETTINGS := (SETTINGS s)\<lparr>outline_only := a, mirror_drawing := b, custom_palette := p\<rparr>,
            rng := r7,
            canvas := (canvas s)\<lparr>cv_items := cv_items (canvas s) @ (?i, it) #
                                     (if b then [(Suc ?i, mit)] else []),
                                  created := (if b then Suc ?i else ?i)\<rparr>,
            draw_history := draw_history s @
               [\<lparr>rec_type = shape, items = [?i],
                 mirror_items = (if b then Some [Suc ?i] else None)\<rparr>]\<rparr>"
      by (simp add: its s7 s6 s5 s4 s3 s2 s1)
    moreover have "CANVAS_WIDTH s7 = CANVAS_WIDTH s"
      by (simp add: s7 s6 s5 s4 s3 s2 s1)
    ultimately show ?thesis
      using True sh' bounds n it' mit [unfolded col]
      apply (rule_tac x = a in exI, rule_tac x = b in exI, rule_tac x = p in exI)
      apply (rule_tac x = r7 in exI, rule_tac x = shape in exI, rule_tac x = sz in exI)
      apply (rule_tac x = n in exI, rule_tac x = it in exI, rule_tac x = mit in exI)
      apply simp
      done
  qed
qed

section \<open>When \<open>draw_shape\<close> succeeds\<close>

lemma draw_shape_Ok:
  assumes cd: "can_draw s"
  shows "\<exists>s'. draw_shape s = Ok () s'"
proof -
  from cd have mm: "0 \<le> min_shape_size (SETTINGS s)"
      "min_shape_size (SETTINGS s) \<le> max_shape_size (SETTINGS s)"
    and wh: "0 \<le> CANVAS_WIDTH s" "0 \<le> CANVAS_HEIGHT s"
    and cv: "canvas_ok (canvas s)"
    by (simp_all add: can_draw_def)
  from pre_Ok [of "special_mode s = ''UltraRandom''" s]
  obtain a b p r1 where "when_do (special_mode s = ''UltraRandom'') ultra_random s =
      Ok () (s\<lparr>SETTINGS := (SETTINGS s)\<lparr>outline_only := a, mirror_drawing := b,
                 custom_palette := p\<rparr>, rng := r1\<rparr>)"
    by (elim exE) (rule that)
  moreover define s1 where "s1 = s\<lparr>SETTINGS := (SETTINGS s)\<lparr>outline_only := a, mirror_drawing := b,
                 custom_palette := p\<rparr>, rng := r1\<rparr>"
  ultimately have st1: "when_do (special_mode s = ''UltraRandom'') ultra_random s = Ok () s1"
    by (simp only:)
  from choose_shape_Ok [of s1]
  obtain shape r2 where "choose_shape s1 = Ok shape (s1\<lparr>rng := r2\<rparr>)"
    by (elim exE conjE) (rule that)
  moreover define s2 where "s2 = s1\<lparr>rng := r2\<rparr>"
  ultimately have st2: "choose_shape s1 = Ok shape s2"
    by (simp only:)
  have "min_shape_size (SETTINGS s2) \<le> max_shape_size (SETTINGS s2)"
    using mm by (simp add: s2_def s1_def)
  from randint_Ok [OF this, of s2]
  obtain sz r3 where "randint (min_shape_size (SETTINGS s2)) (max_shape_size (SETTINGS s2)) s2 =
      Ok sz (s2\<lparr>rng := r3\<rparr>)" and sz: "min_shape_size (SETTINGS s2) \<le> sz"
    by (elim exE conjE) (rule that)
  moreover define s3 where "s3 = s2\<lparr>rng := r3\<rparr>"
  ultimately have st3: "randint (min_shape_size (SETTINGS s2)) (max_shape_size (SETTINGS s2)) s2 = Ok sz s3"
    by (simp only:)
  have sz0: "0 \<le> sz" using sz mm by (simp add: s2_def s1_def)
  have "0 \<le> CANVAS_WIDTH s3" using wh by (simp add: s3_def s2_def s1_def)
  from randint_Ok [OF this, of s3]
  obtain x r4 where "randint 0 (CANVAS_WIDTH s3) s3 = Ok x (s3\<lparr>rng := r4\<rparr>)"
    by (elim exE conjE) (rule that)
  moreover define s4 where "s4 = s3\<lparr>rng := r4\<rparr>"
  ultimately have st4: "randint 0 (CANVAS_WIDTH s3) s3 = Ok x s4"
    by (simp only:)
  have "0 \<le> CANVAS_HEIGHT s4" using wh by (simp add: s4_def s3_def s2_def s1_def)
  from randint_Ok [OF this, of s4]
  obtain y r5 where "randint 0 (CANVAS_HEIGHT s4) s4 = Ok y (s4\<lparr>rng := r5\<rparr>)"
    by (elim exE conjE) (rule that)
  moreover define s5 where "s5 = s4\<lparr>rng := r5\<rparr>"
  ultimately have st5: "randint 0 (CANVAS_HEIGHT s4) s4 = Ok y s5"
    by (simp only:)
  from random_color_Ok [of s5]
  obtain n r6 where "random_color s5 = Ok (hex_color n) (s5\<lparr>rng := r6\<rparr>)"
    by (elim exE conjE) (rule that)
  moreover define s6 where "s6 = s5\<lparr>rng := r6\<rparr>"
  ultimately have st6: "random_color s5 = Ok (hex_color n) s6"
    by (simp only:)
  have wh6: "0 \<le> CANVAS_WIDTH s6" "0 \<le> CANVAS_HEIGHT s6"
    using wh by (simp_all add: s6_def s5_def s4_def s3_def s2_def s1_def)
  have cv6: "canvas s6 = canvas s"
    by (simp add: s6_def s5_def s4_def s3_def s2_def s1_def)
  from render_Ok [OF sz0 wh6, of shape x y "hex_color n" "outline_only (SETTINGS s6)"]
  obtain its w s7 where
    st7: "render shape sz x y (hex_color n) (outline_only (SETTINGS s6)) s6 = Ok (its, w) s7"
    by (elim exE) (rule that)
  from render_OkD [OF st7]
  obtain it r7 where its: "its = [Suc (created (canvas s6))]"
    and s7: "s7 = s6\<lparr>rng := r7, canvas := (canvas s6)\<lparr>cv_items := cv_items (canvas s6) @
                 [(Suc (created (canvas s6)), it)], created := Suc (created (canvas s6))\<rparr>\<rparr>"
    and it: "kind it = kind_of shape" "shape = Line \<longrightarrow> w \<noteq> None"
    by (elim exE conjE) (rule that)
  have look: "map_of (cv_items (canvas s7)) (Suc (created (canvas s6))) = Some it"
    using map_of_fresh [OF cv, of it] by (simp add: s7 cv6)
  from mirror_all_one [OF look it, of "hex_color n" "outline_only (SETTINGS s6)"]
  obtain ms s8 where
    st8: "mirror_all (hex_color n) (outline_only (SETTINGS s6)) w [Suc (created (canvas s6))] s7 = Ok ms s8"
    by (elim exE conjE) (rule that)
  show ?thesis
    by (simp add: draw_shape_def then_do_def st1 st2 st3 st4 st5 st6 st7 its st8 del: when_do_apply mirror_all.simps)
qed

section \<open>Evaluating the examples\<close>

lemmas run_defs = draw_shape_def then_do_def choose_shape_def available_shapes_def choice_def
  randbelow_def randint_def random_color_def render_def create_def cv_create_def
  mirror_item_def cv_coords_def cv_type_def mirrored_coords_def style_def Let_def

lemmas demo_defs = mirror_app_def init_app_def init_settings_def demo_gen_def

lemma draw_shape_Ok_state: "can_draw s \<Longrightarrow> draw_shape s = Ok () (state_of (draw_shape s))"
  using draw_shape_Ok [of s] by auto

lemma can_draw_mirror_app: "can_draw mirror_app"
  by (simp add: can_draw_def canvas_ok_def demo_defs)

section \<open>Canvas lookups after a draw\<close>

lemma length_mirrored_coords [simp]: "length (mirrored_coords w cs) = length cs"
  by (simp add: mirrored_coords_def)

lemma nth_mirrored_coords:
  "k < length cs \<Longrightarrow> mirrored_coords w cs ! k = (if even k then w - cs ! k else cs ! k)"
  by (simp add: mirrored_coords_def even_iff_mod_2_eq_zero)

lemma filter_fresh:
  assumes "canvas_ok cv" "created cv < i"
  shows "filter (\<lambda>p. fst p \<noteq> i) (cv_items cv) = cv_items cv"
  using assms by (auto simp: canvas_ok_def filter_id_conv)

lemma map_of_fresh_None:
  assumes "canvas_ok cv" "created cv < i"
  shows "map_of (cv_items cv) i = None"
proof -
  have "i \<notin> fst ` set (cv_items cv)"
    using assms by (force simp: canvas_ok_def)
  then show ?thesis by (simp add: map_of_eq_None_iff)
qed

section \<open>Undo\<close>

text \<open>
  Claim C3. On a canvas whose handles are not reused, one successful \<open>draw_shape\<close>
  followed by \<open>undo_last_shape\<close> gives back the draw history and the list of live canvas
  primitives of before the draw (so their lengths too): the undo pops the record just
  appended and deletes its primitive and, when the shape was mirrored, its mirror
  primitive. On an empty history \<open>undo_last_shape\<close> changes nothing but the status line,
  which reads "No shapes to undo".
\<close>

theorem undo_inverts_draw:
  "(canvas_ok (canvas s) \<and> draw_shape s = Ok () s1 \<longrightarrow>
      (\<exists>s2. undo_last_shape s1 = Ok () s2 \<and>
            draw_history s2 = draw_history s \<and>
            length (draw_history s2) = length (draw_history s) \<and>
            cv_items (canvas s2) = cv_items (canvas s) \<and>
            length (cv_items (canvas s2)) = length (cv_items (canvas s)) \<and>
            status s2 = ''Last shape undone'')) \<and>
   (draw_history s = [] \<longrightarrow>
      undo_last_shape s = Ok () (s\<lparr>status := ''No shapes to undo''\<rparr>))"
proof (intro conjI impI)
  assume "canvas_ok (canvas s) \<and> draw_shape s = Ok () s1"
  then have cv: "canvas_ok (canvas s)" and ok: "draw_shape s = Ok () s1" by simp_all
  let ?i = "Suc (created (canvas s))"
  from draw_shape_OkD [OF ok cv] obtain a b p r shape it mit where
    s1: "s1 = s\<lparr>SETTINGS := (SETTINGS s)\<lparr>outline_only := a, mirror_drawing := b, custom_palette := p\<rparr>,
            rng := r,
            canvas := (canvas s)\<lparr>cv_items := cv_items (canvas s) @ (?i, it) #
                                     (if b then [(Suc ?i, mit)] else []),
                                  created := (if b then Suc ?i else ?i)\<rparr>,
            draw_history := draw_history s @
               [\<lparr>rec_type = shape, items = [?i],
                 mirror_items = (if b then Some [Suc ?i] else None)\<rparr>]\<rparr>"
    by (elim exE conjE) (rule that, assumption)
  have f1: "filter (\<lambda>p. fst p \<noteq> ?i) (cv_items (canvas s)) = cv_items (canvas s)"
    by (rule filter_fresh [OF cv]) simp
  have f2: "filter (\<lambda>p. fst p \<noteq> Suc ?i) (cv_items (canvas s)) = cv_items (canvas s)"
    by (rule filter_fresh [OF cv]) simp
  show "\<exists>s2. undo_last_shape s1 = Ok () s2 \<and>
            draw_history s2 = draw_history s \<and>
            length (draw_history s2) = length (draw_history s) \<and>
            cv_items (canvas s2) = cv_items (canvas s) \<and>
            length (cv_items (canvas s2)) = length (cv_items (canvas s)) \<and>
            status s2 = ''Last shape undone''"
    by (cases b)
       (simp_all add: undo_last_shape_def s1 then_do_def on_canvas_def cv_delete_def
          set_status_apply get_mirror_items_def f1 f2)
next
  assume "draw_history s = []"
  then show "undo_last_shape s = Ok () (s\<lparr>status := ''No shapes to undo''\<rparr>)"
    by (simp add: undo_last_shape_def then_do_def set_status_apply)
qed

theorem undo_inverts_draw_witness:
  "canvas_ok (canvas mirror_app) \<and>
   draw_shape mirror_app = Ok () (state_of (draw_shape mirror_app)) \<and>
   length (draw_history (state_of (draw_shape mirror_app))) = 1 \<and>
   map fst (cv_items (canvas (state_of (draw_shape mirror_app)))) = [1, 2] \<and>
   draw_history (state_of (undo_last_shape (state_of (draw_shape mirror_app)))) = [] \<and>
   cv_items (canvas (state_of (undo_last_shape (state_of (draw_shape mirror_app))))) = [] \<and>
   status (state_of (undo_last_shape (state_of (draw_shape mirror_app)))) = ''Last shape undone'' \<and>
   draw_history (init_app demo_gen) = [] \<and>
   status (state_of (undo_last_shape (init_app demo_gen))) = ''No shapes to undo''"
proof -
  have cv: "canvas_ok (canvas mirror_app)"
    by (simp add: canvas_ok_def demo_defs)
  have ok: "draw_shape mirror_app = Ok () (state_of (draw_shape mirror_app))"
    by (rule draw_shape_Ok_state [OF can_draw_mirror_app])
  have e: "draw_history mirror_app = []" "cv_items (canvas mirror_app) = []"
    "draw_history (init_app demo_gen) = []"
    by (simp_all add: demo_defs)
  have n: "length (draw_history (state_of (draw_shape mirror_app))) = 1"
    "map fst (cv_items (canvas (state_of (draw_shape mirror_app)))) = [1, 2]"
    by (simp_all add: demo_defs run_defs)
  from undo_inverts_draw [of mirror_app "state_of (draw_shape mirror_app)"] cv ok e
  have "\<exists>s2. undo_last_shape (state_of (draw_shape mirror_app)) = Ok () s2 \<and>
      draw_history s2 = [] \<and> cv_items (canvas s2) = [] \<and> status s2 = ''Last shape undone''"
    by auto
  moreover from undo_inverts_draw [of "init_app demo_gen"] e
  have "undo_last_shape (init_app demo_gen) = Ok () ((init_app demo_gen)\<lparr>status := ''No shapes to undo''\<rparr>)"
    by simp
  ultimately show ?thesis using cv ok e n by auto
qed

section \<open>Mirroring\<close>

text \<open>
  Claim C4. When \<open>draw_shape\<close> has run with the mirror setting on, whatever the shape
  type, the record it appended has one primitive and one mirror primitive of the same
  kind, and the coordinate list handed to the mirror primitive has the length of the
  original's, with \<open>CANVAS_WIDTH - x\<close> at every even index and the original value at every
  odd index, in the original order.
\<close>

theorem mirror_reflects_x:
  assumes cv: "canvas_ok (canvas s)" and ok: "draw_shape s = Ok () s'"
    and mir: "mirror_drawing (SETTINGS s')"
  shows "\<exists>i m it mit.
           items (last_record s') = [i] \<and> mirror_items (last_record s') = Some [m] \<and>
           item_of i s' = Some it \<and> item_of m s' = Some mit \<and>
           kind it = kind_of (rec_type (last_record s')) \<and> kind mit = kind it \<and>
           length (coords mit) = length (coords it) \<and>
           (\<forall>k < length (coords it).
              coords mit ! k = (if even k then CANVAS_WIDTH s' - coords it ! k else coords it ! k))"
proof -
  let ?i = "Suc (created (canvas s))"
  from draw_shape_OkD [OF ok cv] obtain a b p r shape n it mit where
    s': "s' = s\<lparr>SETTINGS := (SETTINGS s)\<lparr>outline_only := a, mirror_drawing := b, custom_palette := p\<rparr>,
            rng := r,
            canvas := (canvas s)\<lparr>cv_items := cv_items (canvas s) @ (?i, it) #
                                     (if b then [(Suc ?i, mit)] else []),
                                  created := (if b then Suc ?i else ?i)\<rparr>,
            draw_history := draw_history s @
               [\<lparr>rec_type = shape, items = [?i],
                 mirror_items = (if b then Some [Suc ?i] else None)\<rparr>]\<rparr>"
    and k: "kind it = kind_of shape"
    and m: "b \<longrightarrow> kind mit = kind it \<and> coords mit = mirrored_coords (CANVAS_WIDTH s) (coords it) \<and>
            item_color mit = Some (Str (hex_color n))"
    by (elim exE conjE) (rule that, assumption+)
  from mir have b: b by (simp add: s')
  with m have km: "kind mit = kind it"
    and cm: "coords mit = mirrored_coords (CANVAS_WIDTH s) (coords it)" by simp_all
  have w: "CANVAS_WIDTH s' = CANVAS_WIDTH s" by (simp add: s')
  show ?thesis
    apply (rule exI [of _ ?i], rule exI [of _ "Suc ?i"], rule exI [of _ it], rule exI [of _ mit])
    using b k km
    apply (simp add: s' last_record_def item_of_def map_add_def map_of_fresh_None [OF cv] cm w nth_mirrored_coords)
    done
qed

theorem mirror_reflects_x_witness:
  "canvas_ok (canvas mirror_app) \<and>
   draw_shape mirror_app = Ok () (state_of (draw_shape mirror_app)) \<and>
   mirror_drawing (SETTINGS (state_of (draw_shape mirror_app))) \<and>
   CANVAS_WIDTH (state_of (draw_shape mirror_app)) = 800 \<and>
   rec_type (last_record (state_of (draw_shape mirror_app))) = Rectangle \<and>
   items (last_record (state_of (draw_shape mirror_app))) = [1] \<and>
   mirror_items (last_record (state_of (draw_shape mirror_app))) = Some [2] \<and>
   map_option coords (item_of 1 (state_of (draw_shape mirror_app))) = Some [17, 24, 37, 44] \<and>
   map_option coords (item_of 2 (state_of (draw_shape mirror_app))) = Some [783, 24, 763, 44] \<and>
   (\<exists>i m it mit.
      items (last_record (state_of (draw_shape mirror_app))) = [i] \<and>
      mirror_items (last_record (state_of (draw_shape mirror_app))) = Some [m] \<and>
      item_of i (state_of (draw_shape mirror_app)) = Some it \<and>
      item_of m (state_of (draw_shape mirror_app)) = Some mit \<and>
      kind it = kind_of (rec_type (last_record (state_of (draw_shape mirror_app)))) \<and>
      kind mit = kind it \<and> length (coords mit) = length (coords it) \<and>
      (\<forall>k < length (coords it).
         coords mit ! k =
           (if even k then CANVAS_WIDTH (state_of (draw_shape mirror_app)) - coords it ! k
            else coords it ! k)))"
proof -
  have cv: "canvas_ok (canvas mirror_app)"
    by (simp add: canvas_ok_def demo_defs)
  have ok: "draw_shape mirror_app = Ok () (state_of (draw_shape mirror_app))"
    by (rule draw_shape_Ok_state [OF can_draw_mirror_app])
  have m: "mirror_drawing (SETTINGS (state_of (draw_shape mirror_app)))"
    by (simp add: demo_defs run_defs)
  have e: "CANVAS_WIDTH (state_of (draw_shape mirror_app)) = 800"
    "rec_type (last_record (state_of (draw_shape mirror_app))) = Rectangle"
    "items (last_record (state_of (draw_shape mirror_app))) = [1]"
    "mirror_items (last_record (state_of (draw_shape mirror_app))) = Some [2]"
    "map_option coords (item_of 1 (state_of (draw_shape mirror_app))) = Some [17, 24, 37, 44]"
    "map_option coords (item_of 2 (state_of (draw_shape mirror_app))) = Some [783, 24, 763, 44]"
    by (simp_all add: demo_defs run_defs last_record_def item_of_def upt_rec)
  from mirror_reflects_x [OF cv ok m] cv ok m e show ?thesis
    by (intro conjI)
qed

section \<open>The sampled size\<close>

text \<open>
  Claim C5. With \<open>min_shape_size \<le> max_shape_size\<close>, the shape that \<open>draw_shape\<close> draws
  has a size \<open>z\<close> with \<open>min_shape_size \<le> z \<le> max_shape_size\<close>: the radius of the circle,
  the side of the bounding box of the arc or rectangle, the bound on the offsets of the
  triangle's vertices.
\<close>

theorem size_within_bounds:
  assumes mm: "min_shape_size (SETTINGS s) \<le> max_shape_size (SETTINGS s)"
    and cv: "canvas_ok (canvas s)" and ok: "draw_shape s = Ok () s'"
  shows "\<exists>z i it.
           min_shape_size (SETTINGS s) \<le> z \<and> z \<le> max_shape_size (SETTINGS s) \<and>
           items (last_record s') = [i] \<and> item_of i s' = Some it \<and>
           has_size (rec_type (last_record s')) z (coords it)"
proof -
  let ?i = "Suc (created (canvas s))"
  from draw_shape_OkD [OF ok cv] obtain a b p r shape sz it mit where
    s': "s' = s\<lparr>SETTINGS := (SETTINGS s)\<lparr>outline_only := a, mirror_drawing := b, custom_palette := p\<rparr>,
            rng := r,
            canvas := (canvas s)\<lparr>cv_items := cv_items (canvas s) @ (?i, it) #
                                     (if b then [(Suc ?i, mit)] else []),
                                  created := (if b then Suc ?i else ?i)\<rparr>,
            draw_history := draw_history s @
               [\<lparr>rec_type = shape, items = [?i],
                 mirror_items = (if b then Some [Suc ?i] else None)\<rparr>]\<rparr>"
    and sz: "min_shape_size (SETTINGS s) \<le> sz" "sz \<le> max_shape_size (SETTINGS s)"
    and hs: "has_size shape sz (coords it)"
    by (elim exE conjE) (rule that, assumption+)
  show ?thesis
    apply (rule exI [of _ sz], rule exI [of _ ?i], rule exI [of _ it])
    using sz hs
    apply (cases b)
    apply (simp_all add: s' last_record_def item_of_def map_add_def map_of_fresh_None [OF cv])
    done
qed

theorem size_within_bounds_witness:
  "min_shape_size (SETTINGS fixed_size_app) \<le> max_shape_size (SETTINGS fixed_size_app) \<and>
   canvas_ok (canvas fixed_size_app) \<and>
   draw_shape fixed_size_app = Ok () (state_of (draw_shape fixed_size_app)) \<and>
   rec_type (last_record (state_of (draw_shape fixed_size_app))) = Circle \<and>
   map_option coords (item_of 1 (state_of (draw_shape fixed_size_app))) = Some [7, 14, 27, 34] \<and>
   has_size Circle 10 [7, 14, 27, 34] \<and>
   (\<exists>z i it.
      min_shape_size (SETTINGS fixed_size_app) \<le> z \<and> z \<le> max_shape_size (SETTINGS fixed_size_app) \<and>
      items (last_record (state_of (draw_shape fixed_size_app))) = [i] \<and>
      item_of i (state_of (draw_shape fixed_size_app)) = Some it \<and>
      has_size (rec_type (last_record (state_of (draw_shape fixed_size_app)))) z (coords it))"
proof -
  have mm: "min_shape_size (SETTINGS fixed_size_app) \<le> max_shape_size (SETTINGS fixed_size_app)"
    by (simp add: fixed_size_app_def demo_defs)
  have cv: "canvas_ok (canvas fixed_size_app)"
    by (simp add: canvas_ok_def fixed_size_app_def demo_defs)
  have "can_draw fixed_size_app"
    by (simp add: can_draw_def canvas_ok_def fixed_size_app_def demo_defs)
  then have ok: "draw_shape fixed_size_app = Ok () (state_of (draw_shape fixed_size_app))"
    by (rule draw_shape_Ok_state)
  have e: "rec_type (last_record (state_of (draw_shape fixed_size_app))) = Circle"
    "map_option coords (item_of 1 (state_of (draw_shape fixed_size_app))) = Some [7, 14, 27, 34]"
    "has_size Circle 10 [7, 14, 27, 34]"
    by (simp_all add: fixed_size_app_def demo_defs run_defs last_record_def item_of_def)
  from size_within_bounds [OF mm cv ok] mm cv ok e show ?thesis
    by (intro conjI)
qed

section \<open>The paused tick\<close>

text \<open>
  Claim C10. When the driver is paused, \<open>animate\<close> skips its whole body: the state it
  returns is the state it was given with one more pending timer, the next call of
  \<open>animate\<close> after the interval that the speed control shows at that moment. So the frame
  counter, the draw history, the canvas primitives and the two overlay handles are
  unchanged.
\<close>

theorem paused_tick_only_reschedules:
  assumes "paused s"
  shows "animate s = Ok () (s\<lparr>timers := timers s @ [(speed_scale s, Animate)]\<rparr>) \<and>
         frame_count (state_of (animate s)) = frame_count s \<and>
         draw_history (state_of (animate s)) = draw_history s \<and>
         canvas (state_of (animate s)) = canvas s \<and>
         meme_text_id (state_of (animate s)) = meme_text_id s \<and>
         watermark_id (state_of (animate s)) = watermark_id s"
  using assms by (simp add: animate_def then_do_def after_apply)

theorem paused_tick_witness:
  "paused paused_app \<and>
   animate paused_app = Ok () (paused_app\<lparr>timers := [(50, Animate)]\<rparr>) \<and>
   frame_count (state_of (animate paused_app)) = 0 \<and>
   draw_history (state_of (animate paused_app)) = [] \<and>
   cv_items (canvas (state_of (animate paused_app))) = []"
proof -
  have p: "paused paused_app"
    by (simp add: paused_app_def init_app_def)
  have t: "timers paused_app = []" "speed_scale paused_app = 50" "frame_count paused_app = 0"
    "draw_history paused_app = []" "cv_items (canvas paused_app) = []"
    by (simp_all add: paused_app_def init_app_def)
  show ?thesis
    using p paused_tick_only_reschedules [OF p] t by simp
qed

section \<open>Setting the seed\<close>

text \<open>
  Claim C9. When the text of the seed entry does not parse as an integer, that is when
  \<open>int\<close> raises on it, the exception is caught: \<open>set_random_seed\<close> changes nothing but the
  status line, which reads "Invalid seed value"; the stored \<open>random_seed\<close> and the
  generator are as before. When \<open>int\<close> returns the integer \<open>v\<close> for the text, the generator
  is replaced by the one seeded with \<open>v\<close>, \<open>random_seed\<close> becomes \<open>v\<close> and the status line
  reports it. This holds whatever texts \<open>int\<close> accepts.
\<close>

theorem set_random_seed_cases:
  "(to_int (seed_entry s) = None \<longrightarrow>
      set_random_seed to_int mt s = Ok () (s\<lparr>status := ''Invalid seed value''\<rparr>)) \<and>
   (\<forall>v. to_int (seed_entry s) = Some v \<longrightarrow>
      set_random_seed to_int mt s =
        Ok () (s\<lparr>rng := \<lparr>raw = mt v, pos = 0\<rparr>,
                 SETTINGS := (SETTINGS s)\<lparr>random_seed := Some v\<rparr>,
                 status := ''Seed set to '' @ str_of_int v\<rparr>))"
  by (simp add: set_random_seed_def try_except_def then_do_def call_int_def read_def seed_def
      set_setting_def set_status_apply)

theorem set_random_seed_witness:
  "example_int (seed_entry (seed_app ''12x'')) = None \<and>
   set_random_seed example_int demo_mt (seed_app ''12x'') =
     Ok () ((seed_app ''12x'')\<lparr>status := ''Invalid seed value''\<rparr>) \<and>
   random_seed (SETTINGS (state_of (set_random_seed example_int demo_mt (seed_app ''12x'')))) = None \<and>
   rng (state_of (set_random_seed example_int demo_mt (seed_app ''12x''))) = rng (seed_app ''12x'') \<and>
   example_int (seed_entry (seed_app '' -42'')) = Some (- 42) \<and>
   random_seed (SETTINGS (state_of (set_random_seed example_int demo_mt (seed_app '' -42'')))) =
     Some (- 42) \<and>
   rng (state_of (set_random_seed example_int demo_mt (seed_app '' -42''))) =
     \<lparr>raw = demo_mt (- 42), pos = 0\<rparr> \<and>
   status (state_of (set_random_seed example_int demo_mt (seed_app '' -42''))) = ''Seed set to -42''"
proof -
  have a: "example_int (seed_entry (seed_app ''12x'')) = None"
    by (simp add: example_int_def seed_app_def ascii_def)
  have b: "example_int (seed_entry (seed_app '' -42'')) = Some (- 42)"
    by (simp add: example_int_def seed_app_def)
  have c: "str_of_int (- 42) = ''-42''"
    by code_simp
  have d: "random_seed (SETTINGS (seed_app ''12x'')) = None"
    by (simp add: seed_app_def init_app_def init_settings_def)
  show ?thesis
    using a b c d
      set_random_seed_cases [of example_int "seed_app ''12x''" demo_mt]
      set_random_seed_cases [of example_int "seed_app '' -42''" demo_mt]
    by simp
qed

section \<open>What \<open>draw_shape\<close> can raise\<close>

lemma then_do_RaisedE:
  assumes "then_do m f s = Raised e s'"
  obtains "m s = Raised e s'" | a s1 where "m s = Ok a s1" "f a s1 = Raised e s'"
  using assms by (auto simp: then_do_def split: res.splits)

lemma pre_not_Raised: "when_do c ultra_random s \<noteq> Raised e s'"
  using pre_Ok [of c s] by (auto simp del: when_do_apply)

lemma choose_shape_not_Raised: "choose_shape s \<noteq> Raised e s'"
  using choose_shape_Ok [of s] by auto

lemma random_color_not_Raised: "random_color s \<noteq> Raised e s'"
  using random_color_Ok [of s] by auto

lemma render_RaisedD: "render shape sz x y color ol s = Raised e s' \<Longrightarrow> e = ValueError"
  by (cases shape)
     (auto simp: render_def create_apply elim!: then_do_RaisedE dest: randint_RaisedD)

lemma mirror_item_RaisedD:
  "mirror_item color ol w i s = Raised e s' \<Longrightarrow> e = UnboundLocalError"
  by (auto simp: mirror_item_def then_do_def create_apply
      split: option.splits item_kind.splits)

lemma mirror_all_RaisedD:
  "mirror_all color ol w its s = Raised e s' \<Longrightarrow> e = UnboundLocalError"
proof (induction its arbitrary: s)
  case Nil
  then show ?case by simp
next
  case (Cons i its)
  then show ?case
    by (auto elim!: then_do_RaisedE dest: mirror_item_RaisedD)
qed

lemma draw_shape_RaisedD:
  assumes "draw_shape s = Raised e s'"
  shows "e = ValueError \<or> e = UnboundLocalError"
  using assms unfolding draw_shape_def
  by (auto elim!: then_do_RaisedE
      dest: randint_RaisedD render_RaisedD mirror_all_RaisedD
      simp: pre_not_Raised choose_shape_not_Raised random_color_not_Raised
      simp del: when_do_apply mirror_all.simps split: if_splits)

section \<open>No shape type enabled\<close>

text \<open>
  Claim C8. When no shape type is enabled, the choice of the shape type does not call
  \<open>random.choice\<close>: it answers \<open>circle\<close> and leaves the generator alone. So
  \<open>draw_shape\<close> never raises the IndexError of a choice from an empty list, the record
  it appends has type \<open>circle\<close>, and with drawable settings it does return.
\<close>

theorem empty_shape_set_draws_circle:
  assumes "available_shapes s = []"
  shows "choose_shape s = Ok Circle s \<and>
         (\<forall>e s'. draw_shape s = Raised e s' \<longrightarrow> e \<noteq> IndexError) \<and>
         (\<forall>s'. canvas_ok (canvas s) \<and> draw_shape s = Ok () s' \<longrightarrow>
                rec_type (last_record s') = Circle) \<and>
         (can_draw s \<longrightarrow> (\<exists>s'. draw_shape s = Ok () s'))"
proof (intro conjI allI impI)
  show "choose_shape s = Ok Circle s"
    using assms by (simp add: choose_shape_def then_do_def)
next
  fix e s'
  assume "draw_shape s = Raised e s'"
  from draw_shape_RaisedD [OF this] show "e \<noteq> IndexError" by auto
next
  fix s'
  assume "canvas_ok (canvas s) \<and> draw_shape s = Ok () s'"
  then have cv: "canvas_ok (canvas s)" and ok: "draw_shape s = Ok () s'" by simp_all
  from draw_shape_OkD [OF ok cv] assms show "rec_type (last_record s') = Circle"
    by (auto simp: last_record_def)
next
  assume "can_draw s"
  then show "\<exists>s'. draw_shape s = Ok () s'" by (rule draw_shape_Ok)
qed

theorem empty_shape_set_witness:
  "available_shapes no_shapes_app = [] \<and>
   choose_shape no_shapes_app = Ok Circle no_shapes_app \<and>
   canvas_ok (canvas no_shapes_app) \<and> can_draw no_shapes_app \<and>
   draw_shape no_shapes_app = Ok () (state_of (draw_shape no_shapes_app)) \<and>
   rec_type (last_record (state_of (draw_shape no_shapes_app))) = Circle \<and>
   map (kind \<circ> snd) (cv_items (canvas (state_of (draw_shape no_shapes_app)))) = [KOval]"
proof -
  have a: "available_shapes no_shapes_app = []"
    by (simp add: available_shapes_def no_shapes_app_def init_app_def)
  have cd: "can_draw no_shapes_app"
    by (simp add: can_draw_def canvas_ok_def no_shapes_app_def demo_defs)
  then have cv: "canvas_ok (canvas no_shapes_app)"
    by (simp add: can_draw_def)
  have ok: "draw_shape no_shapes_app = Ok () (state_of (draw_shape no_shapes_app))"
    by (rule draw_shape_Ok_state [OF cd])
  have k: "map (kind \<circ> snd) (cv_items (canvas (state_of (draw_shape no_shapes_app)))) = [KOval]"
    by (simp add: no_shapes_app_def demo_defs run_defs)
  from empty_shape_set_draws_circle [OF a] a cd cv ok k show ?thesis
    by auto
qed

section \<open>Statements that leave the counters alone\<close>

lemma kept_refl [simp]: "kept s s"
  by (simp add: kept_def)

lemma kept_trans: "kept s s' \<Longrightarrow> kept s' s'' \<Longrightarrow> kept s s''"
  by (simp add: kept_def)

lemma can_draw_kept: "can_draw s \<Longrightarrow> kept s s' \<Longrightarrow> can_draw s'"
  by (simp add: can_draw_def kept_def)

lemma available_shapes_kept: "kept s s' \<Longrightarrow> available_shapes s' = available_shapes s"
  by (simp add: available_shapes_def kept_def)

lemma calmD:
  assumes "calm m"
  obtains a s' where "m s = Ok a s'" "kept s s'" "frame_count s' = frame_count s"
    "draw_history s' = draw_history s" "timers s' = timers s" "status s' = status s"
  using assms unfolding calm_def by blast

lemma calm_ret: "calm (ret a)"
  by (simp add: calm_def)

lemma calm_read: "calm (read f)"
  by (simp add: calm_def)

lemma calm_then_do:
  assumes "calm m" "\<And>a. calm (f a)"
  shows "calm (then_do m f)"
  unfolding calm_def
proof
  fix s
  from assms(1) obtain a s1 where 1: "m s = Ok a s1" "kept s s1" "frame_count s1 = frame_count s"
    "draw_history s1 = draw_history s" "timers s1 = timers s" "status s1 = status s"
    by (rule calmD)
  from assms(2) [of a] obtain b s2 where 2: "f a s1 = Ok b s2" "kept s1 s2"
    "frame_count s2 = frame_count s1" "draw_history s2 = draw_history s1"
    "timers s2 = timers s1" "status s2 = status s1"
    by (rule calmD)
  from 1 2 kept_trans [OF 1(2) 2(2)]
  show "\<exists>a s'. then_do m f s = Ok a s' \<and> kept s s' \<and> frame_count s' = frame_count s \<and>
        draw_history s' = draw_history s \<and> timers s' = timers s \<and> status s' = status s"
    by (simp add: then_do_def)
qed

lemma calm_when_do: "calm m \<Longrightarrow> calm (when_do b m)"
  by (cases b) (simp_all add: when_do_def calm_ret)

lemma calm_if: "calm m1 \<Longrightarrow> calm m2 \<Longrightarrow> calm (if c then m1 else m2)"
  by simp

lemma calm_case_option:
  "calm m1 \<Longrightarrow> (\<And>x. calm (m2 x)) \<Longrightarrow> calm (case h of None \<Rightarrow> m1 | Some x \<Rightarrow> m2 x)"
  by (cases h) simp_all

lemma calm_case_prod: "(\<And>a b. calm (f a b)) \<Longrightarrow> calm (case p of (a, b) \<Rightarrow> f a b)"
  by (cases p) simp

lemma canvas_ok_init: "canvas_ok (canvas (init_app g))"
  by (simp add: canvas_ok_def init_app_def)

lemma canvas_ok_create:
  "canvas_ok cv \<Longrightarrow>
   canvas_ok (cv\<lparr>cv_items := cv_items cv @ [(Suc (created cv), it)], created := Suc (created cv)\<rparr>)"
  by (auto simp: canvas_ok_def)

lemma canvas_ok_delete: "canvas_ok cv \<Longrightarrow> canvas_ok (cv_delete i cv)"
  by (auto simp: canvas_ok_def cv_delete_def)

lemma canvas_ok_delete_tag: "canvas_ok cv \<Longrightarrow> canvas_ok (cv_delete_tag t cv)"
  by (auto simp: canvas_ok_def cv_delete_tag_def)

lemma canvas_ok_tag_raise: "canvas_ok cv \<Longrightarrow> canvas_ok (cv_tag_raise i cv)"
  by (auto simp: canvas_ok_def cv_tag_raise_def)

lemma canvas_ok_itemconfigure_text: "canvas_ok cv \<Longrightarrow> canvas_ok (cv_itemconfigure_text i t cv)"
  by (auto simp: canvas_ok_def cv_itemconfigure_text_def)

lemma calm_on_canvas:
  assumes "\<And>cv. canvas_ok cv \<Longrightarrow> canvas_ok (g cv)"
  shows "calm (on_canvas g)"
  using assms by (simp add: calm_def on_canvas_def kept_def)

lemma calm_create: "calm (create k cs os)"
  by (simp add: calm_def create_apply kept_def canvas_ok_create)

lemma calm_modify:
  assumes "\<And>s. kept s (g s) \<and> frame_count (g s) = frame_count s \<and>
    draw_history (g s) = draw_history s \<and> timers (g s) = timers s \<and> status (g s) = status s"
  shows "calm (modify g)"
  using assms by (simp add: calm_def)

lemma calm_for_each:
  assumes "\<And>x. calm (body x)"
  shows "calm (for_each xs body)"
proof (induction xs)
  case Nil
  show ?case by (simp only: for_each.simps calm_ret)
next
  case (Cons x xs)
  show ?case
    by (simp only: for_each.simps) (intro calm_then_do assms Cons)
qed

lemma calm_random_color: "calm random_color"
  unfolding calm_def
proof
  fix s
  from random_color_Ok [of s] obtain n r where "random_color s = Ok (hex_color n) (s\<lparr>rng := r\<rparr>)"
    by blast
  then show "\<exists>a s'. random_color s = Ok a s' \<and> kept s s' \<and> frame_count s' = frame_count s \<and>
        draw_history s' = draw_history s \<and> timers s' = timers s \<and> status s' = status s"
    by (simp add: kept_def)
qed

lemma calm_create_meme_text: "calm create_meme_text"
  using calm_create by (simp add: calm_def create_meme_text_def)

lemma calm_create_watermark: "calm create_watermark"
  using calm_create by (simp add: calm_def create_watermark_def)

lemma calm_set_meme_text_id: "calm (modify (\<lambda>s. s\<lparr>meme_text_id := h\<rparr>))"
  by (rule calm_modify) (simp add: kept_def)

lemma calm_set_watermark_id: "calm (modify (\<lambda>s. s\<lparr>watermark_id := h\<rparr>))"
  by (rule calm_modify) (simp add: kept_def)

lemmas calm_intros = calm_then_do calm_read calm_ret calm_when_do calm_if calm_case_option
  calm_create calm_for_each calm_random_color calm_create_meme_text calm_create_watermark
  calm_set_meme_text_id calm_set_watermark_id

lemma calm_meme_overlay: "calm meme_overlay"
  unfolding meme_overlay_def
  by (intro calm_intros calm_on_canvas canvas_ok_itemconfigure_text canvas_ok_tag_raise)

lemma calm_watermark_overlay: "calm watermark_overlay"
  unfolding watermark_overlay_def
  by (intro calm_intros calm_on_canvas canvas_ok_itemconfigure_text canvas_ok_tag_raise
      canvas_ok_delete)

lemma calm_draw_grid: "calm draw_grid"
  unfolding draw_grid_def
  by (intro calm_intros calm_case_prod)

lemma calm_update_grid: "calm update_grid"
  unfolding update_grid_def
  by (intro calm_intros calm_on_canvas canvas_ok_delete_tag calm_draw_grid)

lemma calm_chaos: "calm (when_do c (then_do random_color (\<lambda>c. modify (\<lambda>s. s\<lparr>canvas_bg := c\<rparr>))))"
  by (intro calm_intros calm_modify) (simp add: kept_def)

section \<open>The effect of a clear, of a draw and of the body of a tick\<close>

lemma clear_canvas_effect:
  "\<exists>s'. clear_canvas s = Ok () s' \<and> kept s s' \<and> frame_count s' = 0 \<and> draw_history s' = [] \<and>
        timers s' = timers s \<and> status s' = status s"
proof -
  define s0 where "s0 = s\<lparr>canvas := cv_delete_tag ''all'' (canvas s), draw_history := [], frame_count := 0\<rparr>"
  define rest where "rest =
     then_do update_grid (\<lambda>_.
     then_do (read (\<lambda>s. meme_text (SETTINGS s))) (\<lambda>mt.
     then_do (when_do (mt \<noteq> [])
                (then_do create_meme_text (\<lambda>i. modify (\<lambda>s. s\<lparr>meme_text_id := Some i\<rparr>)))) (\<lambda>_.
     then_do (read (\<lambda>s. watermark_enabled (SETTINGS s))) (\<lambda>wm.
       when_do wm
         (then_do create_watermark (\<lambda>i. modify (\<lambda>s. s\<lparr>watermark_id := Some i\<rparr>)))))))"
  have c: "calm rest"
    unfolding rest_def by (intro calm_intros calm_update_grid)
  have e: "clear_canvas s = rest s0"
    by (simp add: clear_canvas_def rest_def s0_def then_do_def on_canvas_def)
  have k0: "kept s s0"
    by (simp add: kept_def s0_def canvas_ok_delete_tag)
  from c obtain a s' where "rest s0 = Ok a s'" "kept s0 s'" "frame_count s' = frame_count s0"
    "draw_history s' = draw_history s0" "timers s' = timers s0" "status s' = status s0"
    by (rule calmD)
  with e k0 show ?thesis
    by (auto simp: s0_def intro: kept_trans)
qed

lemma draw_shape_effect:
  assumes cd: "can_draw s"
  shows "\<exists>s' r. draw_shape s = Ok () s' \<and> kept s s' \<and> frame_count s' = frame_count s \<and>
           draw_history s' = draw_history s @ [r] \<and> timers s' = timers s \<and> status s' = status s \<and>
           (if available_shapes s = [] then rec_type r = Circle
            else rec_type r \<in> set (available_shapes s))"
proof -
  from cd have cv: "canvas_ok (canvas s)" by (simp add: can_draw_def)
  from draw_shape_Ok [OF cd] obtain s' where ok: "draw_shape s = Ok () s'" ..
  let ?i = "Suc (created (canvas s))"
  from draw_shape_OkD [OF ok cv] obtain a b p r shape it mit where
    s': "s' = s\<lparr>SETTINGS := (SETTINGS s)\<lparr>outline_only := a, mirror_drawing := b, custom_palette := p\<rparr>,
            rng := r,
            canvas := (canvas s)\<lparr>cv_items := cv_items (canvas s) @ (?i, it) #
                                     (if b then [(Suc ?i, mit)] else []),
                                  created := (if b then Suc ?i else ?i)\<rparr>,
            draw_history := draw_history s @
               [\<lparr>rec_type = shape, items = [?i],
                 mirror_items = (if b then Some [Suc ?i] else None)\<rparr>]\<rparr>"
    and sh: "if available_shapes s = [] then shape = Circle else shape \<in> set (available_shapes s)"
    by (elim exE conjE) (rule that, assumption+)
  have "canvas_ok (canvas s')"
    using cv by (cases b) (auto simp: s' canvas_ok_def)
  then have k: "kept s s'"
    by (simp add: kept_def) (simp add: s')
  show ?thesis
    apply (rule exI [of _ s'])
    apply (rule exI [of _ "\<lparr>rec_type = shape, items = [?i],
                 mirror_items = (if b then Some [Suc ?i] else None)\<rparr>"])
    using ok k sh apply (simp add: s')
    done
qed

text \<open>Several draws in a row: the loop of burst mode.\<close>

lemma repeat_draw_shape_effect:
  assumes "can_draw s"
  shows "\<exists>s'. repeat n draw_shape s = Ok () s' \<and> kept s s' \<and> frame_count s' = frame_count s \<and>
           length (draw_history s') = length (draw_history s) + n \<and>
           timers s' = timers s \<and> status s' = status s"
  using assms
proof (induction n arbitrary: s)
  case 0
  then show ?case by simp
next
  case (Suc n)
  from draw_shape_effect [OF Suc.prems] obtain s1 r where 1: "draw_shape s = Ok () s1" "kept s s1"
    "frame_count s1 = frame_count s" "draw_history s1 = draw_history s @ [r]"
    "timers s1 = timers s" "status s1 = status s"
    by blast
  from can_draw_kept [OF Suc.prems 1(2)] have "can_draw s1" .
  from Suc.IH [OF this] obtain s2 where 2: "repeat n draw_shape s1 = Ok () s2" "kept s1 s2"
    "frame_count s2 = frame_count s1" "length (draw_history s2) = length (draw_history s1) + n"
    "timers s2 = timers s1" "status s2 = status s1"
    by blast
  from 1 2 kept_trans [OF 1(2) 2(2)] show ?case
    by (simp add: then_do_def)
qed

lemma animate_body_effect:
  assumes cd: "can_draw s"
  shows "\<exists>s'. animate_body s = Ok () s' \<and> kept s s' \<and>
           timers s' = timers s \<and> status s' = status s \<and>
           (if auto_clear_threshold (SETTINGS s) \<le> frame_count s + 1
            then frame_count s' = 0 \<and> draw_history s' = []
            else frame_count s' = frame_count s + 1 \<and>
                 length (draw_history s') = length (draw_history s) + draws_per_tick s)"
proof -
  define s0 where "s0 = s\<lparr>frame_count := frame_count s + 1\<rparr>"
  have k0: "kept s s0" by (simp add: kept_def s0_def)
  have cd0: "can_draw s0" by (rule can_draw_kept [OF cd k0])
  define draws where "draws =
     (if drawing_mode_var s0 = ''continuous'' then draw_shape
      else then_do (read (\<lambda>s. burst_count (SETTINGS s))) (\<lambda>n. repeat (nat n) draw_shape))"
  have "\<exists>s1. draws s0 = Ok () s1 \<and> kept s0 s1 \<and> frame_count s1 = frame_count s0 \<and>
           length (draw_history s1) = length (draw_history s0) + draws_per_tick s0 \<and>
           timers s1 = timers s0 \<and> status s1 = status s0"
  proof (cases "drawing_mode_var s0 = ''continuous''")
    case True
    with draw_shape_effect [OF cd0] show ?thesis
      by (auto simp: draws_def draws_per_tick_def)
  next
    case False
    with repeat_draw_shape_effect [OF cd0, of "nat (burst_count (SETTINGS s0))"] show ?thesis
      by (simp add: draws_def draws_per_tick_def then_do_def)
  qed
  then obtain s1 where 1: "draws s0 = Ok () s1" "kept s0 s1" "frame_count s1 = frame_count s0"
    "length (draw_history s1) = length (draw_history s0) + draws_per_tick s0"
    "timers s1 = timers s0" "status s1 = status s0"
    by blast
  define full where "full = (auto_clear_threshold (SETTINGS s1) \<le> frame_count s1)"
  have full: "full = (auto_clear_threshold (SETTINGS s) \<le> frame_count s + 1)"
    using 1(2,3) by (simp add: full_def kept_def s0_def)
  have "\<exists>s2. when_do full clear_canvas s1 = Ok () s2 \<and> kept s1 s2 \<and>
          timers s2 = timers s1 \<and> status s2 = status s1 \<and>
          (if full then frame_count s2 = 0 \<and> draw_history s2 = []
           else frame_count s2 = frame_count s1 \<and> draw_history s2 = draw_history s1)"
    using clear_canvas_effect [of s1] by (cases full) auto
  then obtain s2 where 2: "when_do full clear_canvas s1 = Ok () s2" "kept s1 s2"
    "timers s2 = timers s1" "status s2 = status s1"
    "if full then frame_count s2 = 0 \<and> draw_history s2 = []
     else frame_count s2 = frame_count s1 \<and> draw_history s2 = draw_history s1"
    by blast
  define tail where "tail =
     then_do (read (\<lambda>s. chaos_mode s \<and> frame_count s mod 50 = 0)) (\<lambda>chaos.
     then_do (when_do chaos
                (then_do random_color (\<lambda>c. modify (\<lambda>s. s\<lparr>canvas_bg := c\<rparr>)))) (\<lambda>_.
     then_do meme_overlay (\<lambda>_.
     watermark_overlay)))"
  have "calm tail"
    unfolding tail_def by (intro calm_intros calm_chaos calm_meme_overlay calm_watermark_overlay)
  then obtain u s3 where 3: "tail s2 = Ok u s3" "kept s2 s3" "frame_count s3 = frame_count s2"
    "draw_history s3 = draw_history s2" "timers s3 = timers s2" "status s3 = status s2"
    by (rule calmD)
  have e: "animate_body s = Ok () s3"
    using 1(1) 2(1) 3(1)
    by (simp add: animate_body_def then_do_def s0_def [symmetric] draws_def [symmetric]
        full_def [symmetric] tail_def [symmetric] del: when_do_apply)
  have k: "kept s s3"
    by (rule kept_trans [OF k0 kept_trans [OF 1(2) kept_trans [OF 2(2) 3(2)]]])
  have d: "draws_per_tick s0 = draws_per_tick s"
    by (simp add: draws_per_tick_def s0_def)
  show ?thesis
    using e k 1 2 3 full d by (cases full) (simp_all add: s0_def)
qed

section \<open>Ticks\<close>

lemma animate_effect:
  assumes cd: "can_draw s" and np: "\<not> paused s"
  shows "\<exists>s'. animate s = Ok () s' \<and> kept s s' \<and>
           timers s' = timers s @ [(speed_scale s, Animate)] \<and> status s' = status s \<and>
           (if auto_clear_threshold (SETTINGS s) \<le> frame_count s + 1
            then frame_count s' = 0 \<and> draw_history s' = []
            else frame_count s' = frame_count s + 1 \<and>
                 length (draw_history s') = length (draw_history s) + draws_per_tick s)"
proof -
  from animate_body_effect [OF cd] obtain s1 where 1: "animate_body s = Ok () s1" "kept s s1"
    "timers s1 = timers s" "status s1 = status s"
    "if auto_clear_threshold (SETTINGS s) \<le> frame_count s + 1
            then frame_count s1 = 0 \<and> draw_history s1 = []
            else frame_count s1 = frame_count s + 1 \<and>
                 length (draw_history s1) = length (draw_history s) + draws_per_tick s"
    by blast
  have sp: "speed_scale s1 = speed_scale s" using 1(2) by (simp add: kept_def)
  have k: "kept s (s1\<lparr>timers := timers s1 @ [(speed_scale s1, Animate)]\<rparr>)"
    using 1(2) by (simp add: kept_def)
  have "animate s = Ok () (s1\<lparr>timers := timers s1 @ [(speed_scale s1, Animate)]\<rparr>)"
    using np 1(1) by (simp add: animate_def then_do_def after_apply)
  with k 1 sp show ?thesis by (auto split: if_splits)
qed

lemma tick_effect:
  assumes cd: "can_draw s" and np: "\<not> paused s"
  shows "\<exists>s'. fire Animate s = Ok () s' \<and> kept s s' \<and>
           (if auto_clear_threshold (SETTINGS s) \<le> frame_count s + 1
            then frame_count s' = 0 \<and> draw_history s' = []
            else frame_count s' = frame_count s + 1 \<and>
                 length (draw_history s') = length (draw_history s) + draws_per_tick s)"
proof -
  define s0 where "s0 = s\<lparr>timers := remove_timer Animate (timers s)\<rparr>"
  have k0: "kept s s0" by (simp add: kept_def s0_def)
  have cd0: "can_draw s0" by (rule can_draw_kept [OF cd k0])
  have np0: "\<not> paused s0" using np by (simp add: s0_def)
  have d: "draws_per_tick s0 = draws_per_tick s" by (simp add: draws_per_tick_def s0_def)
  have e: "fire Animate s = animate s0"
    by (simp add: fire_def then_do_def s0_def)
  from animate_effect [OF cd0 np0] obtain s' where "animate s0 = Ok () s'" "kept s0 s'"
    "if auto_clear_threshold (SETTINGS s0) \<le> frame_count s0 + 1
            then frame_count s' = 0 \<and> draw_history s' = []
            else frame_count s' = frame_count s0 + 1 \<and>
                 length (draw_history s') = length (draw_history s0) + draws_per_tick s0"
    by blast
  with e d kept_trans [OF k0] show ?thesis
    by (auto simp: s0_def split: if_splits)
qed

lemma draws_per_tick_kept: "kept s s' \<Longrightarrow> draws_per_tick s' = draws_per_tick s"
  by (simp add: draws_per_tick_def kept_def)

lemma ticks_below_threshold:
  assumes "can_draw s" "\<not> paused s"
    "frame_count s + int k < auto_clear_threshold (SETTINGS s)"
  shows "\<exists>sk. ticks k s = Ok () sk \<and> kept s sk \<and> frame_count sk = frame_count s + int k \<and>
           length (draw_history sk) = length (draw_history s) + k * draws_per_tick s"
  using assms
proof (induction k arbitrary: s)
  case 0
  then show ?case by (simp add: ticks_def)
next
  case (Suc k)
  from Suc.prems(3) have lt: "\<not> auto_clear_threshold (SETTINGS s) \<le> frame_count s + 1"
    by simp
  from tick_effect [OF Suc.prems(1,2)] lt obtain s1 where 1: "fire Animate s = Ok () s1"
    "kept s s1" "frame_count s1 = frame_count s + 1"
    "length (draw_history s1) = length (draw_history s) + draws_per_tick s"
    by auto
  have cd1: "can_draw s1" by (rule can_draw_kept [OF Suc.prems(1) 1(2)])
  have np1: "\<not> paused s1" using Suc.prems(2) 1(2) by (simp add: kept_def)
  have th1: "frame_count s1 + int k < auto_clear_threshold (SETTINGS s1)"
    using Suc.prems(3) 1(2,3) by (simp add: kept_def)
  from Suc.IH [OF cd1 np1 th1] obtain sk where 2: "ticks k s1 = Ok () sk" "kept s1 sk"
    "frame_count sk = frame_count s1 + int k"
    "length (draw_history sk) = length (draw_history s1) + k * draws_per_tick s1"
    by blast
  have "ticks (Suc k) s = Ok () sk"
    using 1(1) 2(1) by (simp add: ticks_def then_do_def)
  with 1 2 kept_trans [OF 1(2) 2(2)] draws_per_tick_kept [OF 1(2)] show ?case
    by simp
qed

lemma repeat_add: "repeat (a + b) m s = then_do (repeat a m) (\<lambda>_. repeat b m) s"
  by (induction a arbitrary: s) (simp_all add: then_do_def split: res.splits)

section \<open>Auto-clear\<close>

text \<open>
  Claim C6. Start from a cleared state (frame counter 0), not paused, in continuous mode,
  with drawable settings and an auto-clear threshold of at least 1, and let only ticks
  of the animation timer run. After \<open>k\<close> ticks, for every \<open>k\<close> below the threshold, the
  frame counter is \<open>k\<close> and the history has \<open>k\<close> more records: the counter grows by one
  with each tick. After exactly threshold ticks the frame counter is 0 and the draw
  history is empty.
\<close>

theorem auto_clear_at_threshold:
  assumes fc: "frame_count s = 0" and np: "\<not> paused s"
    and mode: "drawing_mode_var s = ''continuous''"
    and cd: "can_draw s" and th: "1 \<le> auto_clear_threshold (SETTINGS s)"
  shows "(\<forall>k. int k < auto_clear_threshold (SETTINGS s) \<longrightarrow>
            (\<exists>sk. ticks k s = Ok () sk \<and> frame_count sk = int k \<and>
                  length (draw_history sk) = length (draw_history s) + k)) \<and>
         (\<exists>s'. ticks (nat (auto_clear_threshold (SETTINGS s))) s = Ok () s' \<and>
               frame_count s' = 0 \<and> draw_history s' = [])"
proof (intro conjI allI impI)
  fix k
  assume "int k < auto_clear_threshold (SETTINGS s)"
  with ticks_below_threshold [OF cd np, of k] fc mode
  show "\<exists>sk. ticks k s = Ok () sk \<and> frame_count sk = int k \<and>
              length (draw_history sk) = length (draw_history s) + k"
    by (auto simp: draws_per_tick_def)
next
  define n where "n = nat (auto_clear_threshold (SETTINGS s)) - 1"
  have T: "nat (auto_clear_threshold (SETTINGS s)) = n + 1"
    and lt: "frame_count s + int n < auto_clear_threshold (SETTINGS s)"
    using th fc by (simp_all add: n_def)
  from ticks_below_threshold [OF cd np lt] obtain sn where 1: "ticks n s = Ok () sn" "kept s sn"
    "frame_count sn = frame_count s + int n"
    by blast
  have cdn: "can_draw sn" by (rule can_draw_kept [OF cd 1(2)])
  have npn: "\<not> paused sn" using np 1(2) by (simp add: kept_def)
  have full: "auto_clear_threshold (SETTINGS sn) \<le> frame_count sn + 1"
    using 1(2,3) fc th by (simp add: kept_def n_def)
  from tick_effect [OF cdn npn] full obtain s' where 2: "fire Animate sn = Ok () s'"
    "frame_count s' = 0" "draw_history s' = []"
    by auto
  have "ticks (n + 1) s = Ok () s'"
    using 1(1) 2(1) unfolding ticks_def repeat_add by (simp add: then_do_def)
  with 2 T show "\<exists>s'. ticks (nat (auto_clear_threshold (SETTINGS s))) s = Ok () s' \<and>
               frame_count s' = 0 \<and> draw_history s' = []"
    by simp
qed

theorem auto_clear_at_threshold_witness:
  "frame_count threshold3_app = 0 \<and> \<not> paused threshold3_app \<and>
   drawing_mode_var threshold3_app = ''continuous'' \<and> can_draw threshold3_app \<and>
   auto_clear_threshold (SETTINGS threshold3_app) = 3 \<and>
   (\<exists>sk. ticks 2 threshold3_app = Ok () sk \<and> frame_count sk = 2 \<and>
         length (draw_history sk) = 2) \<and>
   (\<exists>s'. ticks 3 threshold3_app = Ok () s' \<and> frame_count s' = 0 \<and> draw_history s' = [])"
proof -
  have h: "frame_count threshold3_app = 0" "\<not> paused threshold3_app"
    "drawing_mode_var threshold3_app = ''continuous''"
    "1 \<le> auto_clear_threshold (SETTINGS threshold3_app)"
    "auto_clear_threshold (SETTINGS threshold3_app) = 3"
    "draw_history threshold3_app = []"
    by (simp_all add: threshold3_app_def init_app_def init_settings_def)
  have cd: "can_draw threshold3_app"
    by (simp add: can_draw_def canvas_ok_def threshold3_app_def init_app_def init_settings_def)
  note th = auto_clear_at_threshold [OF h(1,2,3) cd h(4)]
  from th [THEN conjunct1, rule_format, of 2]
  have a: "\<exists>sk. ticks 2 threshold3_app = Ok () sk \<and> frame_count sk = 2 \<and>
         length (draw_history sk) = 2"
    using h by auto
  from th [THEN conjunct2]
  have "\<exists>s'. ticks 3 threshold3_app = Ok () s' \<and> frame_count s' = 0 \<and> draw_history s' = []"
    by (simp add: h)
  with a have "(\<exists>sk. ticks 2 threshold3_app = Ok () sk \<and> frame_count sk = 2 \<and>
         length (draw_history sk) = 2) \<and>
   (\<exists>s'. ticks 3 threshold3_app = Ok () s' \<and> frame_count s' = 0 \<and> draw_history s' = [])"
    by (rule conjI)
  with h cd show ?thesis by simp
qed

section \<open>A draw that raises\<close>

lemma repeat_Raised_later:
  assumes "repeat k m s = Ok () s1" "m s1 = Raised e s'"
  shows "repeat (k + Suc n) m s = Raised e s'"
  using assms unfolding repeat_add by (simp add: then_do_def)

lemma repeat_numeral:
  "repeat (numeral k) m = then_do m (\<lambda>_. repeat (pred_numeral k) m)"
  by (simp add: numeral_eq_Suc)

text \<open>
  Against claim C7 as stated: with the size bounds inverted, the first \<open>draw_shape\<close> of
  a burst tick raises ValueError. The tick ends there: none of the five burst iterations
  has appended a record, and no timer is pending afterwards, so the animation loop has
  stopped.
\<close>

theorem draw_failure_not_caught_counterexample:
  "timers inverted_sizes_app = [(50, Animate)] \<and> \<not> paused inverted_sizes_app \<and>
   burst_count (SETTINGS inverted_sizes_app) = 5 \<and>
   \<not> is_ok (fire Animate inverted_sizes_app) \<and>
   draw_history (state_of (fire Animate inverted_sizes_app)) = [] \<and>
   timers (state_of (fire Animate inverted_sizes_app)) = []"
  by (simp add: inverted_sizes_app_def demo_defs fire_def animate_def animate_body_def
      run_defs repeat_numeral)

text \<open>
  Claim C7, amended. Neither \<open>animate\<close> nor \<open>draw_shape\<close> has an exception handler. When
  the drawing step of an unpaused tick raises, \<open>animate\<close> raises the same exception in the
  same state, before its call of \<open>root.after\<close>: the next tick is not scheduled. In a burst,
  the iteration that raises ends the loop: the remaining iterations do not run. With
  drawable settings no draw raises, and \<open>animate\<close> returns with the next tick scheduled
  after the interval of the speed control.
\<close>

theorem draw_failure_propagates:
  "(\<not> paused s \<and>
    (if drawing_mode_var s = ''continuous'' then draw_shape
     else repeat (nat (burst_count (SETTINGS s))) draw_shape)
      (s\<lparr>frame_count := frame_count s + 1\<rparr>) = Raised e s' \<longrightarrow>
    animate s = Raised e s') \<and>
   (repeat k draw_shape s = Ok () s1 \<and> draw_shape s1 = Raised e s' \<longrightarrow>
    repeat (k + Suc n) draw_shape s = Raised e s') \<and>
   (can_draw s \<longrightarrow>
    (\<exists>s''. animate s = Ok () s'' \<and> timers s'' = timers s @ [(speed_scale s, Animate)]))"
proof (intro conjI impI)
  assume "\<not> paused s \<and>
    (if drawing_mode_var s = ''continuous'' then draw_shape
     else repeat (nat (burst_count (SETTINGS s))) draw_shape)
      (s\<lparr>frame_count := frame_count s + 1\<rparr>) = Raised e s'"
  then show "animate s = Raised e s'"
    by (auto simp: animate_def animate_body_def then_do_def split: if_splits)
next
  assume "repeat k draw_shape s = Ok () s1 \<and> draw_shape s1 = Raised e s'"
  then show "repeat (k + Suc n) draw_shape s = Raised e s'"
    by (elim conjE) (rule repeat_Raised_later)
next
  assume cd: "can_draw s"
  show "\<exists>s''. animate s = Ok () s'' \<and> timers s'' = timers s @ [(speed_scale s, Animate)]"
  proof (cases "paused s")
    case True
    then show ?thesis by (simp add: animate_def then_do_def after_apply)
  next
    case False
    from animate_effect [OF cd False] show ?thesis by blast
  qed
qed

theorem draw_failure_propagates_witness:
  "\<not> paused inverted_sizes_app \<and>
   draw_shape (inverted_sizes_app\<lparr>frame_count := 1\<rparr>) =
     Raised ValueError (state_of (draw_shape (inverted_sizes_app\<lparr>frame_count := 1\<rparr>))) \<and>
   animate inverted_sizes_app =
     Raised ValueError (state_of (draw_shape (inverted_sizes_app\<lparr>frame_count := 1\<rparr>))) \<and>
   repeat 5 draw_shape (inverted_sizes_app\<lparr>frame_count := 1\<rparr>) =
     Raised ValueError (state_of (draw_shape (inverted_sizes_app\<lparr>frame_count := 1\<rparr>))) \<and>
   can_draw (init_app demo_gen) \<and>
   (\<exists>s''. animate (init_app demo_gen) = Ok () s'' \<and> timers s'' = [(50, Animate)])"
proof -
  let ?s = "inverted_sizes_app"
  let ?s1 = "inverted_sizes_app\<lparr>frame_count := 1\<rparr>"
  have np: "\<not> paused ?s" "drawing_mode_var ?s \<noteq> ''continuous''"
    "nat (burst_count (SETTINGS ?s)) = 5" "frame_count ?s = 0"
    by (simp_all add: inverted_sizes_app_def demo_defs)
  have r1: "draw_shape ?s1 = Raised ValueError (state_of (draw_shape ?s1))"
    by (simp add: inverted_sizes_app_def demo_defs run_defs)
  have r0: "repeat 0 draw_shape ?s1 = Ok () ?s1" by simp
  have cd: "can_draw (init_app demo_gen)"
    by (simp add: can_draw_def canvas_ok_def demo_defs)
  have t: "timers (init_app demo_gen) = []" "speed_scale (init_app demo_gen) = 50"
    by (simp_all add: demo_defs)
  note th = draw_failure_propagates
  from th [of "init_app demo_gen"] cd t
  have c: "\<exists>s''. animate (init_app demo_gen) = Ok () s'' \<and> timers s'' = [(50, Animate)]"
    by simp
  from th [of ?s1 ValueError "state_of (draw_shape ?s1)" 0 ?s1 4] r0 r1
  have b: "repeat 5 draw_shape ?s1 = Raised ValueError (state_of (draw_shape ?s1))"
    by simp
  from th [of ?s ValueError "state_of (draw_shape ?s1)"] np b
  have a: "animate ?s = Raised ValueError (state_of (draw_shape ?s1))"
    by simp
  from np r1 a b cd c show ?thesis by simp
qed

section \<open>Primitives created after a point\<close>

lemma keeps_aboveD:
  "keeps_above m \<Longrightarrow> above c0 (canvas s) \<Longrightarrow> m s = Ok a s' \<Longrightarrow> above c0 (canvas s')"
  unfolding keeps_above_def by blast

lemma keeps_above_ret: "keeps_above (ret a)"
  by (simp add: keeps_above_def)

lemma keeps_above_read: "keeps_above (read f)"
  by (simp add: keeps_above_def)

lemma keeps_above_then_do:
  assumes "keeps_above m" "\<And>a. keeps_above (f a)"
  shows "keeps_above (then_do m f)"
  unfolding keeps_above_def
proof (intro allI impI, elim conjE)
  fix c0 s b s''
  assume ab: "above c0 (canvas s)" and ok: "then_do m f s = Ok b s''"
  from ok obtain a s' where 1: "m s = Ok a s'" "f a s' = Ok b s''"
    by (rule then_do_OkE)
  from keeps_aboveD [OF assms(1) ab 1(1)] have "above c0 (canvas s')" .
  from keeps_aboveD [OF assms(2) this 1(2)] show "above c0 (canvas s'')" .
qed

lemma keeps_above_when_do: "keeps_above m \<Longrightarrow> keeps_above (when_do b m)"
  by (cases b) (simp_all add: when_do_def keeps_above_ret)

lemma keeps_above_if: "keeps_above m1 \<Longrightarrow> keeps_above m2 \<Longrightarrow> keeps_above (if c then m1 else m2)"
  by simp

lemma keeps_above_case_option:
  "keeps_above m1 \<Longrightarrow> (\<And>x. keeps_above (m2 x)) \<Longrightarrow>
   keeps_above (case h of None \<Rightarrow> m1 | Some x \<Rightarrow> m2 x)"
  by (cases h) simp_all

lemma keeps_above_case_prod:
  "(\<And>a b. keeps_above (f a b)) \<Longrightarrow> keeps_above (case p of (a, b) \<Rightarrow> f a b)"
  by (cases p) simp

lemma above_create:
  "above c0 cv \<Longrightarrow>
   above c0 (cv\<lparr>cv_items := cv_items cv @ [(Suc (created cv), it)], created := Suc (created cv)\<rparr>)"
  by (auto simp: above_def canvas_ok_def)

lemma above_delete: "above c0 cv \<Longrightarrow> above c0 (cv_delete i cv)"
  by (auto simp: above_def canvas_ok_def cv_delete_def)

lemma above_delete_tag: "above c0 cv \<Longrightarrow> above c0 (cv_delete_tag t cv)"
  by (auto simp: above_def canvas_ok_def cv_delete_tag_def)

lemma above_tag_raise: "above c0 cv \<Longrightarrow> above c0 (cv_tag_raise i cv)"
  by (auto simp: above_def canvas_ok_def cv_tag_raise_def)

lemma above_itemconfigure_text: "above c0 cv \<Longrightarrow> above c0 (cv_itemconfigure_text i t cv)"
  by (auto simp: above_def canvas_ok_def cv_itemconfigure_text_def)

lemma keeps_above_on_canvas:
  assumes "\<And>c0 cv. above c0 cv \<Longrightarrow> above c0 (g cv)"
  shows "keeps_above (on_canvas g)"
  using assms by (auto simp: keeps_above_def on_canvas_def)

lemma keeps_above_create: "keeps_above (create k cs os)"
  by (auto simp: keeps_above_def create_apply above_create)

lemma keeps_above_modify:
  assumes "\<And>s. canvas (g s) = canvas s"
  shows "keeps_above (modify g)"
  using assms by (auto simp: keeps_above_def)

lemma keeps_above_for_each:
  assumes "\<And>x. keeps_above (body x)"
  shows "keeps_above (for_each xs body)"
proof (induction xs)
  case Nil
  show ?case by (simp only: for_each.simps keeps_above_ret)
next
  case (Cons x xs)
  show ?case
    by (simp only: for_each.simps) (intro keeps_above_then_do assms Cons)
qed

lemma keeps_above_random_color: "keeps_above random_color"
  unfolding keeps_above_def
proof (intro allI impI, elim conjE)
  fix c0 s a s'
  assume ab: "above c0 (canvas s)" and ok: "random_color s = Ok a s'"
  from random_color_Ok [of s] obtain n r where "random_color s = Ok (hex_color n) (s\<lparr>rng := r\<rparr>)"
    by blast
  with ok have "s' = s\<lparr>rng := r\<rparr>" by simp
  with ab show "above c0 (canvas s')" by simp
qed

lemma keeps_above_create_meme_text: "keeps_above create_meme_text"
  using keeps_above_create by (simp add: keeps_above_def create_meme_text_def)

lemma keeps_above_create_watermark: "keeps_above create_watermark"
  using keeps_above_create by (simp add: keeps_above_def create_watermark_def)

lemma keeps_above_set_meme_text_id: "keeps_above (modify (\<lambda>s. s\<lparr>meme_text_id := h\<rparr>))"
  by (rule keeps_above_modify) simp

lemma keeps_above_set_watermark_id: "keeps_above (modify (\<lambda>s. s\<lparr>watermark_id := h\<rparr>))"
  by (rule keeps_above_modify) simp

lemmas keeps_above_intros = keeps_above_then_do keeps_above_read keeps_above_ret
  keeps_above_when_do keeps_above_if keeps_above_case_option keeps_above_create
  keeps_above_for_each keeps_above_random_color keeps_above_create_meme_text
  keeps_above_create_watermark keeps_above_set_meme_text_id keeps_above_set_watermark_id

lemma keeps_above_meme_overlay: "keeps_above meme_overlay"
  unfolding meme_overlay_def
  by (intro keeps_above_intros keeps_above_on_canvas above_itemconfigure_text above_tag_raise)

lemma keeps_above_watermark_overlay: "keeps_above watermark_overlay"
  unfolding watermark_overlay_def
  by (intro keeps_above_intros keeps_above_on_canvas above_itemconfigure_text above_tag_raise
      above_delete)

lemma keeps_above_draw_grid: "keeps_above draw_grid"
  unfolding draw_grid_def
  by (intro keeps_above_intros keeps_above_case_prod)

lemma keeps_above_update_grid: "keeps_above update_grid"
  unfolding update_grid_def
  by (intro keeps_above_intros keeps_above_on_canvas above_delete_tag keeps_above_draw_grid)

lemma keeps_above_clear_canvas: "keeps_above clear_canvas"
  unfolding clear_canvas_def
  by (intro keeps_above_intros keeps_above_on_canvas above_delete_tag keeps_above_update_grid
      keeps_above_modify) simp_all

lemma keeps_above_chaos:
  "keeps_above (when_do c (then_do random_color (\<lambda>c. modify (\<lambda>s. s\<lparr>canvas_bg := c\<rparr>))))"
  by (intro keeps_above_intros keeps_above_modify) simp


section \<open>What a draw leaves on the canvas\<close>

lemma rendered_canvas: "canvas s' = canvas s \<Longrightarrow> rendered s' q = rendered s q"
  by (simp add: rendered_def item_of_def split: list.splits)

lemma rendered_append:
  assumes "cv_items (canvas s') = cv_items (canvas s) @ new" "rendered s q"
  shows "rendered s' q"
  using assms
  by (auto simp: rendered_def item_of_def map_add_def split: list.splits option.splits)

lemma draw_shape_canvas:
  assumes ok: "draw_shape s = Ok () s'" and cv: "canvas_ok (canvas s)"
  shows "\<exists>r new. draw_history s' = draw_history s @ [r] \<and> rendered s' r \<and>
           cv_items (canvas s') = cv_items (canvas s) @ new \<and> map fst new = record_handles r \<and>
           (\<forall>p \<in> set new. created (canvas s) < fst p) \<and>
           created (canvas s) \<le> created (canvas s') \<and> canvas_ok (canvas s')"
proof -
  let ?i = "Suc (created (canvas s))"
  from draw_shape_OkD [OF ok cv] obtain a b p r shape it mit where
    s': "s' = s\<lparr>SETTINGS := (SETTINGS s)\<lparr>outline_only := a, mirror_drawing := b, custom_palette := p\<rparr>,
            rng := r,
            canvas := (canvas s)\<lparr>cv_items := cv_items (canvas s) @ (?i, it) #
                                     (if b then [(Suc ?i, mit)] else []),
                                  created := (if b then Suc ?i else ?i)\<rparr>,
            draw_history := draw_history s @
               [\<lparr>rec_type = shape, items = [?i],
                 mirror_items = (if b then Some [Suc ?i] else None)\<rparr>]\<rparr>"
    and k: "kind it = kind_of shape"
    by (elim exE conjE) (rule that, assumption+)
  have fresh: "map_of (cv_items (canvas s)) ?i = None"
    by (rule map_of_fresh_None [OF cv]) simp
  have ok': "canvas_ok (canvas s')"
    using cv by (cases b) (auto simp: s' canvas_ok_def)
  show ?thesis
    apply (rule exI [of _ "\<lparr>rec_type = shape, items = [?i],
                 mirror_items = (if b then Some [Suc ?i] else None)\<rparr>"])
    apply (rule exI [of _ "(?i, it) # (if b then [(Suc ?i, mit)] else [])"])
    using k fresh ok'
    apply (simp add: s' rendered_def item_of_def record_handles_def get_mirror_items_def
        map_add_def)
    done
qed

lemma draw_shape_full:
  assumes cd: "can_draw s"
  shows "\<exists>s' r. draw_shape s = Ok () s' \<and> kept s s' \<and> frame_count s' = frame_count s \<and>
           draw_history s' = draw_history s @ [r] \<and> sampled_type s (rec_type r) \<and>
           rendered s' r \<and> (\<forall>q. rendered s q \<longrightarrow> rendered s' q) \<and>
           map fst (cv_items (canvas s')) = map fst (cv_items (canvas s)) @ record_handles r"
proof -
  from cd have cv: "canvas_ok (canvas s)" by (simp add: can_draw_def)
  from draw_shape_effect [OF cd] obtain s' r where 1: "draw_shape s = Ok () s'" "kept s s'"
    "frame_count s' = frame_count s" "draw_history s' = draw_history s @ [r]"
    "if available_shapes s = [] then rec_type r = Circle
     else rec_type r \<in> set (available_shapes s)"
    by blast
  from draw_shape_canvas [OF 1(1) cv] obtain r' new where 2:
    "draw_history s' = draw_history s @ [r']" "rendered s' r'"
    "cv_items (canvas s') = cv_items (canvas s) @ new" "map fst new = record_handles r'"
    by blast
  from 1(4) 2(1) have r: "r' = r" by simp
  have st: "sampled_type s (rec_type r)"
    using 1(5) by (auto simp: sampled_type_def split: if_splits)
  have keep: "\<forall>q. rendered s q \<longrightarrow> rendered s' q"
    using rendered_append [OF 2(3)] by blast
  have hs: "map fst (cv_items (canvas s')) = map fst (cv_items (canvas s)) @ record_handles r"
    using 2(3,4) r by simp
  show ?thesis
    apply (rule exI [of _ s'], rule exI [of _ r])
    using 1(1,2,3,4) st 2(2) keep hs r apply simp
    done
qed

lemma keeps_above_draw_shape: "keeps_above draw_shape"
  unfolding keeps_above_def
proof (intro allI impI, elim conjE)
  fix c0 s and a :: unit and s'
  assume ab: "above c0 (canvas s)" and ok: "draw_shape s = Ok a s'"
  from ab have cv: "canvas_ok (canvas s)" by (simp add: above_def)
  from ok have ok': "draw_shape s = Ok () s'" by simp
  from draw_shape_canvas [OF ok' cv] obtain r new where
    "cv_items (canvas s') = cv_items (canvas s) @ new"
    "\<forall>p \<in> set new. created (canvas s) < fst p"
    "created (canvas s) \<le> created (canvas s')" "canvas_ok (canvas s')"
    by blast
  with ab show "above c0 (canvas s')"
    by (auto simp: above_def)
qed

lemma keeps_above_repeat:
  assumes "keeps_above m"
  shows "keeps_above (repeat n m)"
proof (induction n)
  case 0
  show ?case by (simp only: repeat.simps keeps_above_ret)
next
  case (Suc n)
  show ?case
    by (simp only: repeat.simps) (intro keeps_above_then_do assms Suc)
qed

lemma keeps_above_after: "keeps_above (after ms cb)"
  unfolding after_def by (rule keeps_above_modify) simp

lemma keeps_above_set_status: "keeps_above (set_status t)"
  unfolding set_status_def by (rule keeps_above_modify) simp

lemma keeps_above_animate_body: "keeps_above animate_body"
  unfolding animate_body_def
  by (intro keeps_above_intros keeps_above_draw_shape keeps_above_repeat keeps_above_clear_canvas
      keeps_above_chaos keeps_above_meme_overlay keeps_above_watermark_overlay
      keeps_above_modify) simp_all

lemma keeps_above_animate: "keeps_above animate"
  unfolding animate_def
  by (intro keeps_above_intros keeps_above_animate_body keeps_above_after)

lemma keeps_above_replay_next: "keeps_above (replay_next h index)"
  unfolding replay_next_def
  by (intro keeps_above_intros keeps_above_draw_shape keeps_above_after keeps_above_set_status)

lemma keeps_above_fire: "keeps_above (fire cb)"
  unfolding fire_def
  by (cases cb)
    (auto intro!: keeps_above_then_do keeps_above_modify keeps_above_animate
      keeps_above_replay_next)

lemma keeps_above_ticks: "keeps_above (ticks k)"
  unfolding ticks_def by (rule keeps_above_repeat) (rule keeps_above_fire)

section \<open>Ticks between the steps of a replay\<close>

lemma paused_tick:
  "paused s \<Longrightarrow>
   fire Animate s =
     Ok () (s\<lparr>timers := remove_timer Animate (timers s) @ [(speed_scale s, Animate)]\<rparr>)"
  by (simp add: fire_def animate_def then_do_def after_apply)

lemma ticks_quiet:
  assumes "paused s \<or> k = 0"
  shows "\<exists>ts. ticks k s = Ok () (s\<lparr>timers := ts\<rparr>)"
  using assms
proof (induction k arbitrary: s)
  case 0
  have "ticks 0 s = Ok () (s\<lparr>timers := timers s\<rparr>)" by (simp add: ticks_def)
  then show ?case ..
next
  case (Suc k)
  then have p: "paused s" by simp
  let ?s1 = "s\<lparr>timers := remove_timer Animate (timers s) @ [(speed_scale s, Animate)]\<rparr>"
  have "paused ?s1 \<or> k = 0" using p by simp
  from Suc.IH [OF this] obtain ts where "ticks k ?s1 = Ok () (?s1\<lparr>timers := ts\<rparr>)" ..
  then have "ticks (Suc k) s = Ok () (s\<lparr>timers := ts\<rparr>)"
    using paused_tick [OF p] by (simp add: ticks_def then_do_def)
  then show ?case ..
qed

lemma tick_returns:
  assumes cd: "can_draw s"
  shows "\<exists>s'. fire Animate s = Ok () s' \<and> kept s s'"
proof (cases "paused s")
  case True
  from paused_tick [OF True] show ?thesis by (simp add: kept_def)
next
  case False
  from tick_effect [OF cd False] show ?thesis by blast
qed

lemma ticks_return:
  assumes "can_draw s"
  shows "\<exists>s'. ticks k s = Ok () s' \<and> kept s s'"
  using assms
proof (induction k arbitrary: s)
  case 0
  then show ?case by (simp add: ticks_def)
next
  case (Suc k)
  from tick_returns [OF Suc.prems] obtain s1 where 1: "fire Animate s = Ok () s1" "kept s s1"
    by blast
  from Suc.IH [OF can_draw_kept [OF Suc.prems 1(2)]] obtain s' where
    2: "ticks k s1 = Ok () s'" "kept s1 s'"
    by blast
  have "ticks (Suc k) s = Ok () s'"
    using 1(1) 2(1) by (simp add: ticks_def then_do_def)
  with kept_trans [OF 1(2) 2(2)] show ?case by blast
qed

section \<open>Replay\<close>

lemma sampled_type_kept: "kept s s' \<Longrightarrow> sampled_type s' t = sampled_type s t"
  by (simp add: sampled_type_def available_shapes_kept)

lemma replay_step_effect:
  assumes cd: "can_draw s" and lt: "index < length h"
  shows "\<exists>s' r. fire (ReplayNext h index) s = Ok () s' \<and> kept s s' \<and>
           frame_count s' = frame_count s \<and> draw_history s' = draw_history s @ [r] \<and>
           sampled_type s (rec_type r)"
proof -
  define s0 where "s0 = s\<lparr>timers := remove_timer (ReplayNext h index) (timers s)\<rparr>"
  have k0: "kept s s0" by (simp add: kept_def s0_def)
  have cd0: "can_draw s0" by (rule can_draw_kept [OF cd k0])
  from draw_shape_effect [OF cd0] obtain s1 r where 1: "draw_shape s0 = Ok () s1" "kept s0 s1"
    "frame_count s1 = frame_count s0" "draw_history s1 = draw_history s0 @ [r]"
    "if available_shapes s0 = [] then rec_type r = Circle
     else rec_type r \<in> set (available_shapes s0)"
    by blast
  have e: "fire (ReplayNext h index) s =
      Ok () (s1\<lparr>timers := timers s1 @ [(50, ReplayNext h (index + 1))]\<rparr>)"
    using lt 1(1)
    by (simp add: fire_def replay_next_def then_do_def after_apply s0_def [symmetric])
  have k: "kept s (s1\<lparr>timers := timers s1 @ [(50, ReplayNext h (index + 1))]\<rparr>)"
    using kept_trans [OF k0 1(2)] by (simp add: kept_def)
  have st: "sampled_type s (rec_type r)"
    using 1(5) by (auto simp: sampled_type_def available_shapes_kept [OF k0] split: if_splits)
  show ?thesis
    apply (rule exI [of _ "s1\<lparr>timers := timers s1 @ [(50, ReplayNext h (index + 1))]\<rparr>"])
    apply (rule exI [of _ r])
    using e k st 1(3,4) apply (simp add: s0_def)
    done
qed

lemma replay_end_effect:
  assumes "\<not> index < length h"
  shows "fire (ReplayNext h index) s =
     Ok () (s\<lparr>timers := remove_timer (ReplayNext h index) (timers s), status := ''Replay complete''\<rparr>)"
  using assms by (simp add: fire_def replay_next_def then_do_def set_status_apply)

lemma replay_step_full:
  assumes cd: "can_draw s" and lt: "index < length h"
  shows "\<exists>s' r. fire (ReplayNext h index) s = Ok () s' \<and> kept s s' \<and>
           frame_count s' = frame_count s \<and> draw_history s' = draw_history s @ [r] \<and>
           sampled_type s (rec_type r) \<and> rendered s' r \<and>
           (\<forall>q. rendered s q \<longrightarrow> rendered s' q) \<and>
           map fst (cv_items (canvas s')) = map fst (cv_items (canvas s)) @ record_handles r"
proof -
  define s0 where "s0 = s\<lparr>timers := remove_timer (ReplayNext h index) (timers s)\<rparr>"
  have k0: "kept s s0" by (simp add: kept_def s0_def)
  have cd0: "can_draw s0" by (rule can_draw_kept [OF cd k0])
  from draw_shape_full [OF cd0] obtain s1 r where 1: "draw_shape s0 = Ok () s1" "kept s0 s1"
    "frame_count s1 = frame_count s0" "draw_history s1 = draw_history s0 @ [r]"
    "sampled_type s0 (rec_type r)" "rendered s1 r" "\<forall>q. rendered s0 q \<longrightarrow> rendered s1 q"
    "map fst (cv_items (canvas s1)) = map fst (cv_items (canvas s0)) @ record_handles r"
    by (elim exE conjE) (rule that, assumption+)
  define s' where "s' = s1\<lparr>timers := timers s1 @ [(50, ReplayNext h (index + 1))]\<rparr>"
  have e: "fire (ReplayNext h index) s = Ok () s'"
    using lt 1(1)
    by (simp add: fire_def replay_next_def then_do_def after_apply s0_def [symmetric] s'_def)
  have k: "kept s s'"
    using kept_trans [OF k0 1(2)] by (simp add: kept_def s'_def)
  have st: "sampled_type s (rec_type r)"
    using 1(5) by (simp add: sampled_type_kept [OF k0])
  have c1: "rendered s' q = rendered s1 q" for q
    by (rule rendered_canvas) (simp add: s'_def)
  have c0: "rendered s0 q = rendered s q" for q
    by (rule rendered_canvas) (simp add: s0_def)
  have keep: "\<forall>q. rendered s q \<longrightarrow> rendered s' q"
    using 1(7) by (simp add: c1 c0)
  have hs: "map fst (cv_items (canvas s')) = map fst (cv_items (canvas s)) @ record_handles r"
    using 1(8) by (simp add: s'_def s0_def)
  have fc: "frame_count s' = frame_count s" "draw_history s' = draw_history s @ [r]"
    using 1(3,4) by (simp_all add: s'_def s0_def)
  show ?thesis
    apply (rule exI [of _ s'], rule exI [of _ r])
    using e k fc st 1(6) keep hs apply (simp add: c1)
    done
qed

lemma clear_canvas_above:
  assumes "clear_canvas s = Ok () s'"
  shows "above (created (canvas s)) (canvas s')"
proof -
  define s0 where "s0 = s\<lparr>canvas := (canvas s)\<lparr>cv_items := []\<rparr>\<rparr>"
  have "clear_canvas s0 = clear_canvas s"
    by (simp add: clear_canvas_def then_do_def on_canvas_def cv_delete_tag_def s0_def)
  with assms have ok: "clear_canvas s0 = Ok () s'" by simp
  have ab: "above (created (canvas s)) (canvas s0)"
    by (simp add: above_def canvas_ok_def s0_def)
  from keeps_aboveD [OF keeps_above_clear_canvas ab ok] show ?thesis .
qed

lemma replay_history_full:
  assumes cd: "can_draw s" and ne: "draw_history s \<noteq> []"
  shows "\<exists>s' r. replay_history s = Ok () s' \<and> kept s s' \<and> frame_count s' = 0 \<and>
           draw_history s' = [r] \<and> sampled_type s (rec_type r) \<and> rendered s' r \<and>
           map fst (cv_items (canvas s')) =
             map fst (cv_items (canvas (state_of (clear_canvas s)))) @ record_handles r \<and>
           above (created (canvas s)) (canvas s')"
proof -
  let ?h = "draw_history s"
  from clear_canvas_effect [of s] obtain s1 where 1: "clear_canvas s = Ok () s1" "kept s s1"
    "frame_count s1 = 0" "draw_history s1 = []"
    by blast
  have a1: "above (created (canvas s)) (canvas s1)"
    by (rule clear_canvas_above [OF 1(1)])
  define s2 where "s2 = s1\<lparr>frame_count := 0, status := ''Replaying history...''\<rparr>"
  have k2: "kept s s2" using 1(2) by (simp add: kept_def s2_def)
  have cd2: "can_draw s2" by (rule can_draw_kept [OF cd k2])
  have a2: "above (created (canvas s)) (canvas s2)" using a1 by (simp add: s2_def)
  from draw_shape_full [OF cd2] obtain s3 r where 3: "draw_shape s2 = Ok () s3" "kept s2 s3"
    "frame_count s3 = frame_count s2" "draw_history s3 = draw_history s2 @ [r]"
    "sampled_type s2 (rec_type r)" "rendered s3 r"
    "map fst (cv_items (canvas s3)) = map fst (cv_items (canvas s2)) @ record_handles r"
    by (elim exE conjE) (rule that, assumption+)
  have a3: "above (created (canvas s)) (canvas s3)"
    by (rule keeps_aboveD [OF keeps_above_draw_shape a2 3(1)])
  define s' where "s' = s3\<lparr>timers := timers s3 @ [(50, ReplayNext ?h 1)]\<rparr>"
  have lt: "0 < length ?h" using ne by simp
  have e: "replay_history s = Ok () s'"
    using ne lt 1(1) 3(1)
    by (simp add: replay_history_def replay_next_def then_do_def set_status_apply after_apply
        s2_def [symmetric] s'_def)
  have k: "kept s s'"
    using kept_trans [OF k2 3(2)] by (simp add: kept_def s'_def)
  have st: "sampled_type s (rec_type r)"
    using 3(5) by (simp add: sampled_type_kept [OF k2])
  have c: "rendered s' r"
    using 3(6) rendered_canvas [of s' s3 r] by (simp add: s'_def)
  have hs: "map fst (cv_items (canvas s')) =
      map fst (cv_items (canvas (state_of (clear_canvas s)))) @ record_handles r"
    using 3(7) 1(1) by (simp add: s'_def s2_def)
  have fc: "frame_count s' = 0" "draw_history s' = [r]"
    using 3(3,4) 1(3,4) by (simp_all add: s'_def s2_def)
  have a: "above (created (canvas s)) (canvas s')"
    using a3 by (simp add: s'_def)
  show ?thesis
    apply (rule exI [of _ s'], rule exI [of _ r])
    using e k fc st c hs a apply simp
    done
qed

section \<open>The replay timers and the ticks between them\<close>

lemma replay_chain_returns:
  assumes "can_draw s" "index \<le> length h" "n = length h - index" "above c0 (canvas s)"
  shows "\<exists>s'. replay_chain gaps h index s = Ok () s' \<and> status s' = ''Replay complete'' \<and>
           above c0 (canvas s')"
  using assms
proof (induction n arbitrary: index s)
  case 0
  then have ge: "\<not> index < length h" by simp
  from ticks_return [OF "0.prems"(1), of "gaps index"] obtain s1 where
    1: "ticks (gaps index) s = Ok () s1" "kept s s1"
    by blast
  have a1: "above c0 (canvas s1)"
    by (rule keeps_aboveD [OF keeps_above_ticks "0.prems"(4) 1(1)])
  define s' where
    "s' = s1\<lparr>timers := remove_timer (ReplayNext h index) (timers s1), status := ''Replay complete''\<rparr>"
  have "replay_chain gaps h index s = Ok () s'"
    by (subst replay_chain.simps)
      (simp add: 1(1) replay_end_effect [OF ge] ge s'_def del: replay_chain.simps)
  moreover have "above c0 (canvas s')" "status s' = ''Replay complete''"
    using a1 by (simp_all add: s'_def)
  ultimately show ?case by blast
next
  case (Suc n)
  then have lt: "index < length h" by simp
  from ticks_return [OF Suc.prems(1), of "gaps index"] obtain s1 where
    1: "ticks (gaps index) s = Ok () s1" "kept s s1"
    by blast
  have cd1: "can_draw s1" by (rule can_draw_kept [OF Suc.prems(1) 1(2)])
  have a1: "above c0 (canvas s1)"
    by (rule keeps_aboveD [OF keeps_above_ticks Suc.prems(4) 1(1)])
  from replay_step_effect [OF cd1 lt] obtain s2 where
    2: "fire (ReplayNext h index) s1 = Ok () s2" "kept s1 s2"
    by blast
  have cd2: "can_draw s2" by (rule can_draw_kept [OF cd1 2(2)])
  have a2: "above c0 (canvas s2)"
    by (rule keeps_aboveD [OF keeps_above_fire a1 2(1)])
  have le: "Suc index \<le> length h" "n = length h - Suc index"
    using lt Suc.prems(3) by simp_all
  from Suc.IH [OF cd2 le a2] obtain s' where
    3: "replay_chain gaps h (Suc index) s2 = Ok () s'" "status s' = ''Replay complete''"
      "above c0 (canvas s')"
    by blast
  have "replay_chain gaps h index s = Ok () s'"
    by (subst replay_chain.simps)
      (simp add: 1(1) 2(1) 3(1) lt del: replay_chain.simps)
  with 3(2,3) show ?case by blast
qed

lemma replay_chain_quiet:
  assumes "can_draw s" "index \<le> length h" "n = length h - index"
    "paused s \<or> (\<forall>i \<le> length h. gaps i = 0)"
  shows "\<exists>s' new. replay_chain gaps h index s = Ok () s' \<and> frame_count s' = frame_count s \<and>
           draw_history s' = draw_history s @ new \<and> length new = length h - index \<and>
           (\<forall>r \<in> set new. sampled_type s (rec_type r) \<and> rendered s' r) \<and>
           (\<forall>q. rendered s q \<longrightarrow> rendered s' q) \<and>
           map fst (cv_items (canvas s')) =
             map fst (cv_items (canvas s)) @ concat (map record_handles new)"
  using assms
proof (induction n arbitrary: index s)
  case 0
  then have ge: "\<not> index < length h" by simp
  have q: "paused s \<or> gaps index = 0" using "0.prems"(2,4) by auto
  from ticks_quiet [OF q] obtain ts where 1: "ticks (gaps index) s = Ok () (s\<lparr>timers := ts\<rparr>)" ..
  define s' where
    "s' = s\<lparr>timers := remove_timer (ReplayNext h index) ts, status := ''Replay complete''\<rparr>"
  have e: "replay_chain gaps h index s = Ok () s'"
    by (subst replay_chain.simps)
      (simp add: 1 replay_end_effect [OF ge] ge s'_def del: replay_chain.simps)
  have rq: "rendered s' q = rendered s q" for q
    by (rule rendered_canvas) (simp add: s'_def)
  show ?case
    apply (rule exI [of _ s'], rule exI [of _ "[]"])
    using e ge apply (simp add: rq)
    apply (simp add: s'_def)
    done
next
  case (Suc n)
  then have lt: "index < length h" by simp
  have q: "paused s \<or> gaps index = 0" using Suc.prems(2,4) by auto
  from ticks_quiet [OF q] obtain ts where 1: "ticks (gaps index) s = Ok () (s\<lparr>timers := ts\<rparr>)" ..
  define s1 where "s1 = s\<lparr>timers := ts\<rparr>"
  have k1: "kept s s1" by (simp add: kept_def s1_def)
  have cd1: "can_draw s1" by (rule can_draw_kept [OF Suc.prems(1) k1])
  from replay_step_full [OF cd1 lt] obtain s2 r where
    2: "fire (ReplayNext h index) s1 = Ok () s2" "kept s1 s2"
      "frame_count s2 = frame_count s1" "draw_history s2 = draw_history s1 @ [r]"
      "sampled_type s1 (rec_type r)" "rendered s2 r" "\<forall>q. rendered s1 q \<longrightarrow> rendered s2 q"
      "map fst (cv_items (canvas s2)) = map fst (cv_items (canvas s1)) @ record_handles r"
    by (elim exE conjE) (rule that, assumption+)
  have k2: "kept s s2" by (rule kept_trans [OF k1 2(2)])
  have cd2: "can_draw s2" by (rule can_draw_kept [OF cd1 2(2)])
  have p2: "paused s2 \<or> (\<forall>i \<le> length h. gaps i = 0)"
    using Suc.prems(4) k2 by (simp add: kept_def)
  have le: "Suc index \<le> length h" "n = length h - Suc index"
    using lt Suc.prems(3) by simp_all
  from Suc.IH [OF cd2 le p2] obtain s' new where
    3: "replay_chain gaps h (Suc index) s2 = Ok () s'" "frame_count s' = frame_count s2"
      "draw_history s' = draw_history s2 @ new" "length new = length h - Suc index"
      "\<forall>r \<in> set new. sampled_type s2 (rec_type r) \<and> rendered s' r"
      "\<forall>q. rendered s2 q \<longrightarrow> rendered s' q"
      "map fst (cv_items (canvas s')) =
         map fst (cv_items (canvas s2)) @ concat (map record_handles new)"
    by (elim exE conjE) (rule that, assumption+)
  have e: "replay_chain gaps h index s = Ok () s'"
    by (subst replay_chain.simps)
      (simp add: 1 s1_def [symmetric] 2(1) 3(1) lt del: replay_chain.simps)
  have c1: "rendered s1 q = rendered s q" for q
    by (rule rendered_canvas) (simp add: s1_def)
  have fc: "frame_count s' = frame_count s" "draw_history s' = draw_history s @ r # new"
    using 2(3,4) 3(2,3) by (simp_all add: s1_def)
  have len: "length (r # new) = length h - index"
    using 3(4) lt by simp
  have all: "\<forall>r' \<in> set (r # new). sampled_type s (rec_type r') \<and> rendered s' r'"
    using 2(5,6) 3(5,6) by (simp add: sampled_type_kept [OF k1] sampled_type_kept [OF k2])
  have keep: "\<forall>q. rendered s q \<longrightarrow> rendered s' q"
    using 2(7) 3(6) by (simp add: c1)
  have hs: "map fst (cv_items (canvas s')) =
      map fst (cv_items (canvas s)) @ concat (map record_handles (r # new))"
    using 2(8) 3(7) by (simp add: s1_def)
  show ?case
    apply (rule exI [of _ s'], rule exI [of _ "r # new"])
    using e fc len all keep hs apply blast
    done
qed


lemmas replay_defs = replay_run_def replay_history_def replay_next_def clear_canvas_def
  update_grid_def draw_grid_def on_canvas_def cv_delete_tag_def set_status_apply after_apply
  fire_def ticks_def animate_def animate_body_def meme_overlay_def watermark_overlay_def

text \<open>
  Against claim C2 as stated. The history holds one line and the driver is running. With
  no animation tick between the replay steps, replay clears the history and draws one new
  shape, and the shape it draws is a rectangle, the type the generator picks among the
  enabled ones, not the recorded type. With one tick before the replay timer fires, the
  tick draws a shape of its own and counts a frame: at completion the history holds two
  records, not one, and the frame counter is 1.
\<close>

theorem replay_types_counterexample:
  "map rec_type (draw_history running_line_app) = [Line] \<and>
   \<not> paused running_line_app \<and>
   is_ok (replay_run (\<lambda>_. 0) running_line_app) \<and>
   status (state_of (replay_run (\<lambda>_. 0) running_line_app)) = ''Replay complete'' \<and>
   map rec_type (draw_history (state_of (replay_run (\<lambda>_. 0) running_line_app))) = [Rectangle] \<and>
   map rec_type (draw_history (state_of (replay_run (\<lambda>_. 0) running_line_app))) \<noteq>
     map rec_type (draw_history running_line_app) \<and>
   is_ok (replay_run (\<lambda>_. 1) running_line_app) \<and>
   status (state_of (replay_run (\<lambda>_. 1) running_line_app)) = ''Replay complete'' \<and>
   map rec_type (draw_history (state_of (replay_run (\<lambda>_. 1) running_line_app))) =
     [Rectangle, Rectangle] \<and>
   frame_count (state_of (replay_run (\<lambda>_. 1) running_line_app)) = 1"
  by (simp add: running_line_app_def line_history_app_def demo_defs replay_defs run_defs)

text \<open>
  Claim C2, amended. For a draw history of \<open>n \<ge> 1\<close> records and drawable settings,
  \<open>replay_history\<close> and the timers it starts return, whatever animation ticks run between
  them: the status line reads "Replay complete" and every primitive on the canvas was
  created after the replay began, so that nothing drawn before is left. When the driver is
  paused, or when no animation tick runs between the replay steps, \<open>draw_shape\<close> has been
  called exactly \<open>n\<close> times by then: the history holds \<open>n\<close> new records, each rendered by
  a live primitive of the kind of its type; the canvas holds what \<open>clear_canvas\<close> leaves
  (the grid and the overlays) followed by the primitives of these records and nothing
  else; and the frame counter is 0. Only the length of the snapshot is used: the type of
  each of these records is sampled afresh among the enabled shape types (\<open>circle\<close> when
  none is enabled), it is not the recorded type.
\<close>

theorem replay_redraws_count:
  assumes cd: "can_draw s" and ne: "draw_history s \<noteq> []"
  shows "\<exists>s'. replay_run gaps s = Ok () s' \<and> status s' = ''Replay complete'' \<and>
           (\<forall>p \<in> set (cv_items (canvas s')). created (canvas s) < fst p) \<and>
           (paused s \<or> (\<forall>i \<le> length (draw_history s). gaps i = 0) \<longrightarrow>
              length (draw_history s') = length (draw_history s) \<and>
              (\<forall>r \<in> set (draw_history s'). sampled_type s (rec_type r) \<and> rendered s' r) \<and>
              map fst (cv_items (canvas s')) =
                map fst (cv_items (canvas (state_of (clear_canvas s)))) @
                concat (map record_handles (draw_history s')) \<and>
              frame_count s' = 0)"
proof -
  let ?h = "draw_history s"
  from replay_history_full [OF cd ne] obtain s1 r where 1: "replay_history s = Ok () s1"
    "kept s s1" "frame_count s1 = 0" "draw_history s1 = [r]" "sampled_type s (rec_type r)"
    "rendered s1 r"
    "map fst (cv_items (canvas s1)) =
       map fst (cv_items (canvas (state_of (clear_canvas s)))) @ record_handles r"
    "above (created (canvas s)) (canvas s1)"
    by (elim exE conjE) (rule that, assumption+)
  have cd1: "can_draw s1" by (rule can_draw_kept [OF cd 1(2)])
  have le: "1 \<le> length ?h" using ne by (cases ?h) simp_all
  from replay_chain_returns [OF cd1 le refl 1(8), of gaps] obtain s' where
    2: "replay_chain gaps ?h 1 s1 = Ok () s'" "status s' = ''Replay complete''"
      "above (created (canvas s)) (canvas s')"
    by blast
  have e: "replay_run gaps s = Ok () s'"
    using ne 1(1) 2(1) by (simp add: replay_run_def then_do_def del: replay_chain.simps)
  have fresh: "\<forall>p \<in> set (cv_items (canvas s')). created (canvas s) < fst p"
    using 2(3) by (simp add: above_def)
  have quiet: "length (draw_history s') = length ?h \<and>
      (\<forall>r \<in> set (draw_history s'). sampled_type s (rec_type r) \<and> rendered s' r) \<and>
      map fst (cv_items (canvas s')) =
        map fst (cv_items (canvas (state_of (clear_canvas s)))) @
        concat (map record_handles (draw_history s')) \<and>
      frame_count s' = 0"
    if q: "paused s \<or> (\<forall>i \<le> length ?h. gaps i = 0)"
  proof -
    have q1: "paused s1 \<or> (\<forall>i \<le> length ?h. gaps i = 0)"
      using q 1(2) by (simp add: kept_def)
    from replay_chain_quiet [OF cd1 le refl q1] obtain s'' new where
      3: "replay_chain gaps ?h 1 s1 = Ok () s''" "frame_count s'' = frame_count s1"
        "draw_history s'' = draw_history s1 @ new" "length new = length ?h - 1"
        "\<forall>r \<in> set new. sampled_type s1 (rec_type r) \<and> rendered s'' r"
        "\<forall>q. rendered s1 q \<longrightarrow> rendered s'' q"
        "map fst (cv_items (canvas s'')) =
           map fst (cv_items (canvas s1)) @ concat (map record_handles new)"
      by (elim exE conjE) (rule that, assumption+)
    from 2(1) 3(1) have same: "s'' = s'" by simp
    have len: "length (draw_history s') = length ?h"
      using 3(3,4) 1(4) le by (simp add: same)
    have all: "\<forall>r' \<in> set (draw_history s'). sampled_type s (rec_type r') \<and> rendered s' r'"
      using 1(4,5,6) 3(3,5,6) by (simp add: same sampled_type_kept [OF 1(2)])
    have hs: "map fst (cv_items (canvas s')) =
        map fst (cv_items (canvas (state_of (clear_canvas s)))) @
        concat (map record_handles (draw_history s'))"
      using 1(4,7) 3(3,7) by (simp add: same)
    have fc: "frame_count s' = 0"
      using 1(3) 3(2) by (simp add: same)
    from len all hs fc show ?thesis by blast
  qed
  show ?thesis
    apply (rule exI [of _ s'])
    using e 2(2) fresh quiet apply blast
    done
qed

theorem replay_redraws_count_witness:
  "can_draw paused_pair_app \<and> draw_history paused_pair_app \<noteq> [] \<and>
   length (draw_history paused_pair_app) = 2 \<and> paused paused_pair_app \<and>
   map fst (cv_items (canvas paused_pair_app)) = [1, 2] \<and>
   created (canvas paused_pair_app) = 2 \<and>
   available_shapes paused_pair_app = [Circle, Line, Arc, Rectangle, Triangle] \<and>
   (\<exists>s'. replay_run (\<lambda>_. 3) paused_pair_app = Ok () s' \<and> status s' = ''Replay complete'' \<and>
         (\<forall>p \<in> set (cv_items (canvas s')). 2 < fst p) \<and>
         length (draw_history s') = 2 \<and>
         (\<forall>r \<in> set (draw_history s'). sampled_type paused_pair_app (rec_type r) \<and> rendered s' r) \<and>
         map fst (cv_items (canvas s')) =
           map fst (cv_items (canvas (state_of (clear_canvas paused_pair_app)))) @
           concat (map record_handles (draw_history s')) \<and>
         frame_count s' = 0) \<and>
   can_draw running_line_app \<and> draw_history running_line_app \<noteq> [] \<and>
   \<not> paused running_line_app \<and>
   (\<exists>s'. replay_run (\<lambda>_. 0) running_line_app = Ok () s' \<and> status s' = ''Replay complete'' \<and>
         length (draw_history s') = 1 \<and>
         (\<forall>r \<in> set (draw_history s'). sampled_type running_line_app (rec_type r) \<and> rendered s' r) \<and>
         frame_count s' = 0)"
proof -
  have cd: "can_draw paused_pair_app"
    by (simp add: can_draw_def canvas_ok_def paused_pair_app_def demo_defs)
  have ne: "draw_history paused_pair_app \<noteq> []" "length (draw_history paused_pair_app) = 2"
    "paused paused_pair_app" "map fst (cv_items (canvas paused_pair_app)) = [1, 2]"
    "created (canvas paused_pair_app) = 2"
    "available_shapes paused_pair_app = [Circle, Line, Arc, Rectangle, Triangle]"
    by (simp_all add: paused_pair_app_def demo_defs available_shapes_def)
  have cd': "can_draw running_line_app"
    by (simp add: can_draw_def canvas_ok_def running_line_app_def line_history_app_def demo_defs)
  have ne': "draw_history running_line_app \<noteq> []" "length (draw_history running_line_app) = 1"
    "\<not> paused running_line_app"
    by (simp_all add: running_line_app_def line_history_app_def demo_defs)
  from replay_redraws_count [OF cd ne(1), of "\<lambda>_. 3"] obtain s' where
    1: "replay_run (\<lambda>_. 3) paused_pair_app = Ok () s'" "status s' = ''Replay complete''"
      "\<forall>p \<in> set (cv_items (canvas s')). created (canvas paused_pair_app) < fst p"
      "paused paused_pair_app \<or> (\<forall>i \<le> length (draw_history paused_pair_app). (3::nat) = 0) \<longrightarrow>
         length (draw_history s') = length (draw_history paused_pair_app) \<and>
         (\<forall>r \<in> set (draw_history s'). sampled_type paused_pair_app (rec_type r) \<and> rendered s' r) \<and>
         map fst (cv_items (canvas s')) =
           map fst (cv_items (canvas (state_of (clear_canvas paused_pair_app)))) @
           concat (map record_handles (draw_history s')) \<and>
         frame_count s' = 0"
    by (elim exE conjE) (rule that, assumption+)
  from replay_redraws_count [OF cd' ne'(1), of "\<lambda>_. 0"] obtain t' where
    2: "replay_run (\<lambda>_. 0) running_line_app = Ok () t'" "status t' = ''Replay complete''"
      "paused running_line_app \<or> (\<forall>i \<le> length (draw_history running_line_app). (0::nat) = 0) \<longrightarrow>
         length (draw_history t') = length (draw_history running_line_app) \<and>
         (\<forall>r \<in> set (draw_history t'). sampled_type running_line_app (rec_type r) \<and> rendered t' r) \<and>
         map fst (cv_items (canvas t')) =
           map fst (cv_items (canvas (state_of (clear_canvas running_line_app)))) @
           concat (map record_handles (draw_history t')) \<and>
         frame_count t' = 0"
    by (elim exE conjE) (rule that, assumption+)
  have a: "\<exists>s'. replay_run (\<lambda>_. 3) paused_pair_app = Ok () s' \<and> status s' = ''Replay complete'' \<and>
         (\<forall>p \<in> set (cv_items (canvas s')). 2 < fst p) \<and>
         length (draw_history s') = 2 \<and>
         (\<forall>r \<in> set (draw_history s'). sampled_type paused_pair_app (rec_type r) \<and> rendered s' r) \<and>
         map fst (cv_items (canvas s')) =
           map fst (cv_items (canvas (state_of (clear_canvas paused_pair_app)))) @
           concat (map record_handles (draw_history s')) \<and>
         frame_count s' = 0"
    apply (rule exI [of _ s'])
    using 1 ne(2,3,5) apply simp
    done
  have b: "\<exists>s'. replay_run (\<lambda>_. 0) running_line_app = Ok () s' \<and> status s' = ''Replay complete'' \<and>
         length (draw_history s') = 1 \<and>
         (\<forall>r \<in> set (draw_history s'). sampled_type running_line_app (rec_type r) \<and> rendered s' r) \<and>
         frame_count s' = 0"
    apply (rule exI [of _ t'])
    using 2 ne'(2) apply simp
    done
  from cd ne cd' ne'(1,3) a b show ?thesis
    by (intro conjI)
qed

section \<open>The custom palette\<close>

lemma draw_shape_split:
  "draw_shape s =
     then_do (when_do (special_mode s = ''UltraRandom'') ultra_random) (\<lambda>_. draw_sampled) s"
  by (simp add: draw_shape_def draw_sampled_def then_do_def del: when_do_apply)

lemmas blind_defs = palette_blind_def res_with_palette_def with_palette_def

lemma blind_ret: "palette_blind p (ret a)"
  by (simp add: blind_defs)

lemma blind_then_do:
  assumes "palette_blind p m" "\<And>a. palette_blind p (f a)"
  shows "palette_blind p (then_do m f)"
  using assms by (auto simp: palette_blind_def then_do_def res_with_palette_def split: res.splits)

lemma blind_if: "palette_blind p m1 \<Longrightarrow> palette_blind p m2 \<Longrightarrow> palette_blind p (if c then m1 else m2)"
  by simp

lemma blind_case_prod: "(\<And>a b. palette_blind p (f a b)) \<Longrightarrow> palette_blind p (case x of (a, b) \<Rightarrow> f a b)"
  by (cases x) simp

lemma blind_choose_shape: "palette_blind p choose_shape"
  by (simp add: blind_defs choose_shape_def then_do_def available_shapes_def choice_def
      randbelow_def split: list.splits)

lemma blind_size:
  "palette_blind p (\<lambda>s. randint (min_shape_size (SETTINGS s)) (max_shape_size (SETTINGS s)) s)"
  by (simp add: blind_defs randint_apply)

lemma blind_x: "palette_blind p (\<lambda>s. randint 0 (CANVAS_WIDTH s) s)"
  by (simp add: blind_defs randint_apply)

lemma blind_y: "palette_blind p (\<lambda>s. randint 0 (CANVAS_HEIGHT s) s)"
  by (simp add: blind_defs randint_apply)

lemma blind_random_color: "palette_blind p random_color"
  by (simp add: blind_defs random_color_def then_do_def randint_apply)

lemma blind_read_outline: "palette_blind p (read (\<lambda>s. outline_only (SETTINGS s)))"
  by (simp add: blind_defs)

lemma blind_read_mirror: "palette_blind p (read (\<lambda>s. mirror_drawing (SETTINGS s)))"
  by (simp add: blind_defs)

lemma blind_render: "palette_blind p (render shape sz x y color ol)"
  by (cases shape)
     (simp_all add: blind_defs render_def then_do_def randint_apply create_apply)

lemma blind_mirror_item: "palette_blind p (mirror_item color ol w i)"
  by (simp add: blind_defs mirror_item_def then_do_def create_apply
      split: option.splits item_kind.splits)

lemma blind_mirror_all: "palette_blind p (mirror_all color ol w its)"
proof (induction its)
  case Nil
  show ?case by (simp only: mirror_all.simps blind_ret)
next
  case (Cons i its)
  show ?case
    by (simp only: mirror_all.simps) (intro blind_then_do blind_mirror_item Cons blind_ret)
qed

lemma blind_append_record:
  "palette_blind p (modify (\<lambda>s. s\<lparr>draw_history := draw_history s @ [r]\<rparr>))"
  by (simp add: blind_defs)

lemma blind_draw_sampled: "palette_blind p draw_sampled"
  unfolding draw_sampled_def
  by (intro blind_then_do blind_choose_shape blind_size blind_x blind_y blind_random_color
      blind_read_outline blind_render blind_case_prod blind_read_mirror blind_if
      blind_mirror_all blind_ret blind_append_record)

lemma ultra_random_overwrites: "ultra_random (with_palette p s) = ultra_random s"
  by (simp add: ultra_random_def then_do_def choice_apply collect_3 random_color_def
      randint_apply set_setting_def with_palette_def)

lemma draw_shape_with_palette:
  "draw_shape (with_palette p s) =
     (if special_mode s = ''UltraRandom'' then draw_shape s
      else res_with_palette p (draw_shape s))"
proof (cases "special_mode s = ''UltraRandom''")
  case True
  then have "special_mode (with_palette p s) = ''UltraRandom''"
    by (simp add: with_palette_def)
  with True show ?thesis
    by (simp add: draw_shape_split then_do_def ultra_random_overwrites)
next
  case False
  then have "special_mode (with_palette p s) \<noteq> ''UltraRandom''"
    by (simp add: with_palette_def)
  with False blind_draw_sampled [of p] show ?thesis
    by (simp add: draw_shape_split then_do_def palette_blind_def)
qed

lemma res_with_palette_same:
  "is_ok (res_with_palette p r) = is_ok r"
  "canvas (state_of (res_with_palette p r)) = canvas (state_of r)"
  "draw_history (state_of (res_with_palette p r)) = draw_history (state_of r)"
  by (cases r; simp add: res_with_palette_def with_palette_def)+

lemma hex_color_31: "hex_color 31 = ''#00001f''"
  by code_simp

text \<open>
  Against claim C1 as stated: the custom palette holds two colors, the mode is Normal,
  and the shape \<open>draw_shape\<close> draws has the color \<open>#00001f\<close>, which is not in the palette.
\<close>

theorem palette_not_used_counterexample:
  "palette_list (custom_palette (SETTINGS palette_app)) = [''#ff0000'', ''#00ff00''] \<and>
   special_mode palette_app = ''Normal'' \<and>
   is_ok (draw_shape palette_app) \<and>
   items (last_record (state_of (draw_shape palette_app))) = [1] \<and>
   map_option item_color (item_of 1 (state_of (draw_shape palette_app))) =
     Some (Some (Str ''#00001f'')) \<and>
   ''#00001f'' \<notin> set (palette_list (custom_palette (SETTINGS palette_app)))"
  by (simp add: palette_app_def demo_defs run_defs palette_list_def last_record_def
      item_of_def item_color_def hex_color_31)

text \<open>
  Claim C1, amended. For every shape generation step the color of the shape is the one
  \<open>random_color()\<close> answers, \<open>"#%06x"\<close> of an integer drawn in \<open>[0, 0xFFFFFF]\<close>, whether the
  custom palette is empty or not. The palette setting is never read: with any other
  palette \<open>draw_shape\<close> succeeds or fails alike, draws the same primitives and appends the
  same record.
\<close>

theorem color_ignores_palette:
  "is_ok (draw_shape (with_palette p s)) = is_ok (draw_shape s) \<and>
   canvas (state_of (draw_shape (with_palette p s))) = canvas (state_of (draw_shape s)) \<and>
   draw_history (state_of (draw_shape (with_palette p s))) = draw_history (state_of (draw_shape s)) \<and>
   (\<forall>s'. canvas_ok (canvas s) \<and> draw_shape s = Ok () s' \<longrightarrow>
      (\<exists>i it n. items (last_record s') = [i] \<and> item_of i s' = Some it \<and>
         0 \<le> n \<and> n \<le> 0xFFFFFF \<and> item_color it = Some (Str (hex_color n))))"
proof (intro conjI allI impI)
  show "is_ok (draw_shape (with_palette p s)) = is_ok (draw_shape s)"
    by (simp add: draw_shape_with_palette res_with_palette_same)
  show "canvas (state_of (draw_shape (with_palette p s))) = canvas (state_of (draw_shape s))"
    by (simp add: draw_shape_with_palette res_with_palette_same)
  show "draw_history (state_of (draw_shape (with_palette p s))) = draw_history (state_of (draw_shape s))"
    by (simp add: draw_shape_with_palette res_with_palette_same)
next
  fix s'
  assume "canvas_ok (canvas s) \<and> draw_shape s = Ok () s'"
  then have cv: "canvas_ok (canvas s)" and ok: "draw_shape s = Ok () s'" by simp_all
  let ?i = "Suc (created (canvas s))"
  from draw_shape_OkD [OF ok cv] obtain a b q r shape n it mit where
    s': "s' = s\<lparr>SETTINGS := (SETTINGS s)\<lparr>outline_only := a, mirror_drawing := b, custom_palette := q\<rparr>,
            rng := r,
            canvas := (canvas s)\<lparr>cv_items := cv_items (canvas s) @ (?i, it) #
                                     (if b then [(Suc ?i, mit)] else []),
                                  created := (if b then Suc ?i else ?i)\<rparr>,
            draw_history := draw_history s @
               [\<lparr>rec_type = shape, items = [?i],
                 mirror_items = (if b then Some [Suc ?i] else None)\<rparr>]\<rparr>"
    and n: "0 \<le> n" "n \<le> 0xFFFFFF"
    and col: "item_color it = Some (Str (hex_color n))"
    by (elim exE conjE) (rule that, assumption+)
  show "\<exists>i it n. items (last_record s') = [i] \<and> item_of i s' = Some it \<and>
         0 \<le> n \<and> n \<le> 0xFFFFFF \<and> item_color it = Some (Str (hex_color n))"
    apply (rule exI [of _ ?i], rule exI [of _ it], rule exI [of _ n])
    using n col
    apply (cases b)
    apply (simp_all add: s' last_record_def item_of_def map_add_def map_of_fresh_None [OF cv])
    done
qed

theorem color_ignores_palette_witness:
  "with_palette ''#ff0000,#00ff00'' (init_app demo_gen) = palette_app \<and>
   canvas_ok (canvas (init_app demo_gen)) \<and>
   draw_shape (init_app demo_gen) = Ok () (state_of (draw_shape (init_app demo_gen))) \<and>
   is_ok (draw_shape palette_app) \<and>
   canvas (state_of (draw_shape palette_app)) = canvas (state_of (draw_shape (init_app demo_gen))) \<and>
   draw_history (state_of (draw_shape palette_app)) =
     draw_history (state_of (draw_shape (init_app demo_gen))) \<and>
   map_option item_color (item_of 1 (state_of (draw_shape (init_app demo_gen)))) =
     Some (Some (Str (hex_color 31))) \<and>
   (\<exists>i it n. items (last_record (state_of (draw_shape (init_app demo_gen)))) = [i] \<and>
      item_of i (state_of (draw_shape (init_app demo_gen))) = Some it \<and>
      0 \<le> n \<and> n \<le> 0xFFFFFF \<and> item_color it = Some (Str (hex_color n)))"
proof -
  let ?s = "init_app demo_gen"
  have w: "with_palette ''#ff0000,#00ff00'' ?s = palette_app"
    by (simp add: with_palette_def palette_app_def demo_defs)
  have cd: "can_draw ?s"
    by (simp add: can_draw_def canvas_ok_def demo_defs)
  then have cv: "canvas_ok (canvas ?s)" by (simp add: can_draw_def)
  have ok: "draw_shape ?s = Ok () (state_of (draw_shape ?s))"
    by (rule draw_shape_Ok_state [OF cd])
  then have io: "is_ok (draw_shape ?s)" by (metis is_ok_simps(1))
  have c: "map_option item_color (item_of 1 (state_of (draw_shape ?s))) =
     Some (Some (Str (hex_color 31)))"
    by (simp add: demo_defs run_defs item_of_def item_color_def)
  note th = color_ignores_palette [of "''#ff0000,#00ff00''" ?s, unfolded w]
  from th io have 1: "is_ok (draw_shape palette_app)" by simp
  from th have 2: "canvas (state_of (draw_shape palette_app)) = canvas (state_of (draw_shape ?s))"
    and 3: "draw_history (state_of (draw_shape palette_app)) = draw_history (state_of (draw_shape ?s))"
    by simp_all
  from th cv ok
  have 4: "\<exists>i it n. items (last_record (state_of (draw_shape ?s))) = [i] \<and>
      item_of i (state_of (draw_shape ?s)) = Some it \<and>
      0 \<le> n \<and> n \<le> 0xFFFFFF \<and> item_color it = Some (Str (hex_color n))"
    by blast
  from w cv ok 1 2 3 c 4 show ?thesis by (intro conjI)
qed

end
